theory Spec2Isabelle
  imports Main "HOL-Library.Sublist"
begin

section \<open>The dashboard provisioning script\<close>

text \<open>
  A shallow embedding of \<^verbatim>\<open>ops/docker/scripts/dashboard-sync.py\<close>. The script is a
  straight line: two gates (a credential in the environment, a usable destination
  directory) and a loop over a fixed list of dashboard descriptors that downloads a
  document, rewrites three literal tokens and writes the result to a file.

  Everything the script touches outside its own variables is made explicit. The \<open>host\<close>
  holds what the run reads and cannot change (the environment variables, what each URL
  answers, which writes the disk refuses, the permission of the files the process
  creates); the \<open>state\<close> holds what the run changes (the file system and the sequence of
  I/O events). An exception is a value: \<open>step\<close> and
  \<open>loop\<close> return the exception raised, if any, next to the state reached.
\<close>

subsection \<open>Descriptors (lines 5--19)\<close>

record dashboard =
  name :: string
  filename :: string
  url :: string
  replacement :: string

definition dashboard_list :: "dashboard list" where
  "dashboard_list =
     [\<lparr>name = ''Geth Dashboard Ethereum'',
       filename = ''single_geth_eth.json'',
       url = ''https://grafana.com/api/dashboards/13877/revisions/1/download'',
       replacement = ''InfluxDB_eth''\<rparr>,
      \<lparr>name = ''Geth Dashboard Optimism'',
       filename = ''single_geth_opt.json'',
       url = ''https://grafana.com/api/dashboards/13877/revisions/1/download'',
       replacement = ''InfluxDB''\<rparr>]"

definition dashboard_path :: string where
  "dashboard_path = ''/grafana-dashboards''"

text \<open>The two entries of the list, by name.\<close>

definition eth_dashboard :: dashboard where
  "eth_dashboard = dashboard_list ! 0"

definition opt_dashboard :: dashboard where
  "opt_dashboard = dashboard_list ! 1"

subsection \<open>Exceptions and the way the process ends\<close>

datatype exn =
    NameError string
  | URLError
  | UnicodeDecodeError
  | OSError
  | ValueError
  | IndexError
  | UnmodelledFormatField

datatype outcome =
    Finished
  | SystemExit int
  | Uncaught exn

text \<open>
  The exit status of the interpreter: 0 when the module body runs to its end, the
  argument of \<^verbatim>\<open>sys.exit\<close> (its low eight bits) when \<^verbatim>\<open>SystemExit\<close> is raised, and 1 when
  any other exception reaches the top level.
\<close>

fun exit_status :: "outcome \<Rightarrow> int" where
  "exit_status Finished = 0"
| "exit_status (SystemExit code) = code mod 256"
| "exit_status (Uncaught e) = 1"

text \<open>
  The names the module binds (lines 2--3 and the three assignments). \<^verbatim>\<open>import a.b\<close> binds
  the first component \<^verbatim>\<open>a\<close>. Evaluating \<^verbatim>\<open>sys.exit(1)\<close> looks the name \<^verbatim>\<open>sys\<close> up first;
  a name that is not bound (and is no builtin, which \<^verbatim>\<open>sys\<close> is not) raises NameError
  before \<^verbatim>\<open>exit\<close> is ever reached.
\<close>

definition imported :: "string list" where
  "imported = [''os'', ''urllib.request'']"

definition bound_names :: "string list" where
  "bound_names =
     map (takeWhile (\<lambda>c. c \<noteq> CHR ''.'')) imported
     @ [''dashboard_list'', ''dashboard_path'', ''GF_SECURITY_ADMIN_PASSWORD'']"

definition sys_exit :: "int \<Rightarrow> outcome" where
  "sys_exit code =
     (if ''sys'' \<in> set bound_names then SystemExit code else Uncaught (NameError ''sys''))"

subsection \<open>Strings: \<^verbatim>\<open>str.replace\<close>, \<^verbatim>\<open>str.format\<close>, \<^verbatim>\<open>os.path.join\<close>\<close>

text \<open>
  Text is a \<open>string\<close>; a decoded document is represented by its UTF-8 bytes. The three
  tokens are ASCII, and UTF-8 never reuses an ASCII byte inside a longer sequence, so
  replacing on the bytes and replacing on the code points find the same occurrences.

  \<^verbatim>\<open>s.replace(old, new)\<close> replaces the non-overlapping occurrences of \<open>old\<close> found from left
  to right. With an empty \<open>old\<close> Python puts \<open>new\<close> before every character and at the end.
\<close>

function str_replace :: "string \<Rightarrow> string \<Rightarrow> string \<Rightarrow> string" where
  "str_replace old new [] = (if old = [] then new else [])"
| "str_replace old new (c # cs) =
     (if old = [] then new @ c # str_replace old new cs
      else if prefix old (c # cs)
        then new @ str_replace old new (drop (length old) (c # cs))
      else c # str_replace old new cs)"
  by pat_completeness auto
termination
  by (relation "measure (\<lambda>(old, new, s). length s)") auto

text \<open>
  \<^verbatim>\<open>template.format(*args)\<close>, for the replacement fields this model covers: \<^verbatim>\<open>{{\<close> and
  \<^verbatim>\<open>}}\<close> are escapes, \<^verbatim>\<open>{}\<close> takes the next positional argument (IndexError when there is
  none), a lone brace is a ValueError. Named, numbered and formatted fields are not
  modelled and are reported as such; the script's template holds no brace at all.
\<close>

fun str_format :: "string \<Rightarrow> string list \<Rightarrow> exn + string" where
  "str_format [] args = Inr []"
| "str_format [c] args =
     (if c = CHR ''{'' \<or> c = CHR ''}'' then Inl ValueError else Inr [c])"
| "str_format (c # c' # cs) args =
     (if c = CHR ''{'' then
        (if c' = CHR ''{'' then map_sum id ((#) c) (str_format cs args)
         else if c' = CHR ''}'' then
           (case args of
              [] \<Rightarrow> Inl IndexError
            | a # as \<Rightarrow> map_sum id ((@) a) (str_format cs as))
         else Inl UnmodelledFormatField)
      else if c = CHR ''}'' then
        (if c' = CHR ''}'' then map_sum id ((#) c) (str_format cs args)
         else Inl ValueError)
      else map_sum id ((#) c) (str_format (c' # cs) args))"

text \<open>\<^verbatim>\<open>os.path.join(a, b)\<close> of \<^verbatim>\<open>posixpath\<close>: an absolute \<open>b\<close> discards \<open>a\<close>.\<close>

definition path_join :: "string \<Rightarrow> string \<Rightarrow> string" where
  "path_join a b =
     (if prefix ''/'' b then b
      else if a = [] \<or> last a = CHR ''/'' then a @ b
      else a @ ''/'' @ b)"

subsection \<open>The substitutions (lines 34--36)\<close>

definition substitute :: "dashboard \<Rightarrow> string \<Rightarrow> string" where
  "substitute dashboard decoded_html =
     (let data = str_replace ''${DS_INFLUXDB}'' (replacement dashboard) decoded_html;
          data = str_replace ''Geth Dashboard'' (name dashboard) data;
          data = str_replace ''QC1Arp5Wk'' (''QC1Arp5Wk'' @ replacement dashboard) data
      in data)"

subsection \<open>The world: environment, network, file system\<close>

text \<open>
  A file-system node is a file (writable by this process or not, with its content) or a
  directory (writable or not). The bytes a URL answers are classified by what
  \<^verbatim>\<open>bytes.decode('utf-8')\<close> does with them.
\<close>

datatype node = File bool string | Dir bool

datatype bytes = Utf8 string | Malformed

datatype event =
    Print string
  | Urlopen string
  | Open_w string
  | Write string string

record host =
  environ :: "string \<rightharpoonup> string"
  net :: "nat \<Rightarrow> string \<Rightarrow> bytes option"
  write_fault :: "string \<Rightarrow> string \<Rightarrow> nat option"
  created_writable :: bool

record state =
  fs :: "string \<rightharpoonup> node"
  trace :: "event list"

text \<open>
  \<open>net h n u\<close> is what \<^verbatim>\<open>urlopen(u)\<close> followed by \<^verbatim>\<open>f.read()\<close> yields when it is the request
  number \<open>n\<close> of the run (counted from 0): the body, or \<open>None\<close> when either raises. Two
  requests for the same URL need not be answered alike. \<open>write_fault h p data\<close> says
  whether \<^verbatim>\<open>write\<close>/\<^verbatim>\<open>close\<close> of \<open>data\<close> to the opened file \<open>p\<close> raises (a full disk, an encoding
  error; both are reported as \<open>OSError\<close> here), and after how many characters of \<open>data\<close>
  reached the file. \<open>created_writable h\<close> says whether a file this process creates is one
  it may open for writing afterwards: it is false for an unprivileged process under a
  umask that clears the owner's write bit.
\<close>

fun is_request :: "event \<Rightarrow> bool" where
  "is_request (Urlopen u) = True"
| "is_request (Print m) = False"
| "is_request (Open_w p) = False"
| "is_request (Write p data) = False"

definition requests :: "event list \<Rightarrow> nat" where
  "requests tr = length (filter is_request tr)"

fun writes :: "event list \<Rightarrow> (string \<times> string) list" where
  "writes [] = []"
| "writes (Write p data # tr) = (p, data) # writes tr"
| "writes (Print m # tr) = writes tr"
| "writes (Urlopen u # tr) = writes tr"
| "writes (Open_w p # tr) = writes tr"

definition log :: "event \<Rightarrow> state \<Rightarrow> state" where
  "log e s = s\<lparr>trace := trace s @ [e]\<rparr>"

definition decode :: "bytes \<Rightarrow> exn + string" where
  "decode response =
     (case response of Utf8 t \<Rightarrow> Inr t | Malformed \<Rightarrow> Inl UnicodeDecodeError)"

definition path_exists :: "(string \<rightharpoonup> node) \<Rightarrow> string \<Rightarrow> bool" where
  "path_exists f p = (f p \<noteq> None)"

definition isdir :: "(string \<rightharpoonup> node) \<Rightarrow> string \<Rightarrow> bool" where
  "isdir f p = (case f p of Some (Dir w) \<Rightarrow> True | _ \<Rightarrow> False)"

definition access_w :: "(string \<rightharpoonup> node) \<Rightarrow> string \<Rightarrow> bool" where
  "access_w f p =
     (case f p of None \<Rightarrow> False | Some (File w c) \<Rightarrow> w | Some (Dir w) \<Rightarrow> w)"

text \<open>
  \<^verbatim>\<open>os.path.dirname\<close>: the path up to its last slash, trailing slashes stripped unless it
  consists of slashes only.
\<close>

definition dirname :: "string \<Rightarrow> string" where
  "dirname p =
     (let head = rev (dropWhile (\<lambda>c. c \<noteq> CHR ''/'') (rev p))
      in if list_all (\<lambda>c. c = CHR ''/'') head then head
         else rev (dropWhile (\<lambda>c. c = CHR ''/'') (rev head)))"

text \<open>
  \<^verbatim>\<open>open(p, 'w')\<close>: fails on a directory and on a file the process may not write;
  truncates a writable file; creates a missing file, empty and with the permission the
  host gives to created files, when the directory that holds it exists and is writable,
  and fails otherwise. The handle it returns is open for writing at position 0,
  whatever the permission of the file.
\<close>

definition can_open_w :: "(string \<rightharpoonup> node) \<Rightarrow> string \<Rightarrow> bool" where
  "can_open_w f p =
     (case f p of
        Some (Dir w) \<Rightarrow> False
      | Some (File w c) \<Rightarrow> w
      | None \<Rightarrow> f (dirname p) = Some (Dir True))"

definition mode_after :: "host \<Rightarrow> (string \<rightharpoonup> node) \<Rightarrow> string \<Rightarrow> bool" where
  "mode_after h f p = (case f p of Some (File w c) \<Rightarrow> w | _ \<Rightarrow> created_writable h)"

definition open_w ::
  "host \<Rightarrow> (string \<rightharpoonup> node) \<Rightarrow> string \<Rightarrow> ((string \<rightharpoonup> node) \<times> nat) option" where
  "open_w h f p =
     (if can_open_w f p then Some (f(p \<mapsto> File (mode_after h f p) []), 0) else None)"

text \<open>
  \<^verbatim>\<open>d_file.write(data)\<close> through a handle at position \<open>pos\<close>: the characters of \<open>data\<close>
  replace what the file holds from \<open>pos\<close> on, one for one, and extend the file where it
  is shorter; what the file holds before \<open>pos\<close> and beyond the written range stays (a
  gap before \<open>pos\<close> reads as zero bytes). Nothing but the truncation by \<^verbatim>\<open>open\<close> removes
  old content.
\<close>

definition write_at :: "string \<Rightarrow> nat \<Rightarrow> string \<Rightarrow> string" where
  "write_at c pos data =
     take pos c @ replicate (pos - length c) (CHR 0x00) @ data @ drop (pos + length data) c"

definition file_write ::
  "(string \<rightharpoonup> node) \<Rightarrow> string \<Rightarrow> nat \<Rightarrow> string \<Rightarrow> (string \<rightharpoonup> node) option" where
  "file_write f p pos data =
     (case f p of
        Some (File w c) \<Rightarrow> Some (f(p \<mapsto> File w (write_at c pos data)))
      | _ \<Rightarrow> None)"

subsection \<open>The loop body and the loop (lines 30--39)\<close>

definition target :: "dashboard \<Rightarrow> string" where
  "target dashboard = path_join dashboard_path (filename dashboard)"

definition step :: "host \<Rightarrow> state \<Rightarrow> dashboard \<Rightarrow> state \<times> exn option" where
  "step h s dashboard =
     (let n = requests (trace s);
          s = log (Urlopen (url dashboard)) s in
      case net h n (url dashboard) of
        None \<Rightarrow> (s, Some URLError)
      | Some response \<Rightarrow>
          (case decode response of
             Inl e \<Rightarrow> (s, Some e)
           | Inr decoded_html \<Rightarrow>
               (let data = substitute dashboard decoded_html;
                    p = target dashboard;
                    s = log (Open_w p) s
                in case open_w h (fs s) p of
                     None \<Rightarrow> (s, Some OSError)
                   | Some (f, pos) \<Rightarrow>
                       (case write_fault h p data of
                          Some n \<Rightarrow>
                            (case file_write f p pos (take n data) of
                               None \<Rightarrow> (s\<lparr>fs := f\<rparr>, Some OSError)
                             | Some f' \<Rightarrow> (s\<lparr>fs := f'\<rparr>, Some OSError))
                        | None \<Rightarrow>
                            (case file_write f p pos data of
                               None \<Rightarrow> (s\<lparr>fs := f\<rparr>, Some OSError)
                             | Some f' \<Rightarrow> (log (Write p data) (s\<lparr>fs := f'\<rparr>), None))))))"

fun loop :: "host \<Rightarrow> state \<Rightarrow> dashboard list \<Rightarrow> state \<times> exn option" where
  "loop h s [] = (s, None)"
| "loop h s (dashboard # rest) =
     (case step h s dashboard of
        (s', Some e) \<Rightarrow> (s', Some e)
      | (s', None) \<Rightarrow> loop h s' rest)"

subsection \<open>The module body (lines 21--39)\<close>

text \<open>A run starts from the file system it finds, with no event behind it.\<close>

definition main :: "host \<Rightarrow> (string \<rightharpoonup> node) \<Rightarrow> state \<times> outcome" where
  "main h f =
     (let s = \<lparr>fs = f, trace = []\<rparr> in
      case environ h ''GF_SECURITY_ADMIN_PASSWORD'' of
        None \<Rightarrow>
          (log (Print ''GF_SECURITY_ADMIN_PASSWORD env value is missing, exiting.'') s,
           sys_exit 1)
      | Some GF_SECURITY_ADMIN_PASSWORD \<Rightarrow>
          if (\<not> path_exists (fs s) dashboard_path) \<or> (\<not> isdir (fs s) dashboard_path)
             \<or> (\<not> access_w (fs s) dashboard_path)
          then
            (case str_format ''Dashboard path %s is not writable, exiting'' [dashboard_path] of
               Inl e \<Rightarrow> (s, Uncaught e)
             | Inr msg \<Rightarrow> (log (Print msg) s, sys_exit 1))
          else
            (case loop h s dashboard_list of
               (s', Some e) \<Rightarrow> (s', Uncaught e)
             | (s', None) \<Rightarrow> (s', Finished)))"

subsection \<open>Sample worlds\<close>

text \<open>
  Concrete hosts and file systems on which the theorems below are run: a host that
  answers every request with \<open>example_text\<close> and refuses no write, variants of it, and
  file systems with and without a usable destination directory.
\<close>

definition example_text :: string where
  "example_text = ''title: Geth Dashboard, uid: QC1Arp5Wk, datasource: ${DS_INFLUXDB}''"

definition example_host :: host where
  "example_host =
     \<lparr>environ = [''GF_SECURITY_ADMIN_PASSWORD'' \<mapsto> ''secret''],
      net = (\<lambda>n u. Some (Utf8 example_text)),
      write_fault = (\<lambda>p data. None),
      created_writable = True\<rparr>"

definition example_fs :: "string \<rightharpoonup> node" where
  "example_fs = [dashboard_path \<mapsto> Dir True]"

definition empty_password_host :: host where
  "empty_password_host = example_host\<lparr>environ := [''GF_SECURITY_ADMIN_PASSWORD'' \<mapsto> '''']\<rparr>"

definition unset_host :: host where
  "unset_host = example_host\<lparr>environ := Map.empty\<rparr>"

definition other_password_host :: host where
  "other_password_host =
     example_host\<lparr>environ := [''GF_SECURITY_ADMIN_PASSWORD'' \<mapsto> ''hunter2'']\<rparr>"

definition second_fetch_fails_host :: host where
  "second_fetch_fails_host =
     example_host\<lparr>net := (\<lambda>n u. if n = 0 then Some (Utf8 example_text) else None)\<rparr>"

definition readonly_umask_host :: host where
  "readonly_umask_host = example_host\<lparr>created_writable := False\<rparr>"

definition missing_fs :: "string \<rightharpoonup> node" where
  "missing_fs = Map.empty"

definition file_fs :: "string \<rightharpoonup> node" where
  "file_fs = [dashboard_path \<mapsto> File True ''not a directory'']"

definition readonly_fs :: "string \<rightharpoonup> node" where
  "readonly_fs = [dashboard_path \<mapsto> Dir False]"

definition stale_text :: string where
  "stale_text =
     ''stale: a dashboard left by an earlier provisioning, longer than the text that replaces it, line 1 of 1''"

definition stale_fs :: "string \<rightharpoonup> node" where
  "stale_fs = example_fs(''/grafana-dashboards/single_geth_eth.json'' \<mapsto> File True stale_text)"

definition example_done :: state where
  "example_done =
     \<lparr>fs = example_fs
        (''/grafana-dashboards/single_geth_eth.json'' \<mapsto> File True
           ''title: Geth Dashboard Ethereum, uid: QC1Arp5WkInfluxDB_eth, datasource: InfluxDB_eth'',
         ''/grafana-dashboards/single_geth_opt.json'' \<mapsto> File True
           ''title: Geth Dashboard Optimism, uid: QC1Arp5WkInfluxDB, datasource: InfluxDB''),
      trace =
        [Urlopen ''https://grafana.com/api/dashboards/13877/revisions/1/download'',
         Open_w ''/grafana-dashboards/single_geth_eth.json'',
         Write ''/grafana-dashboards/single_geth_eth.json''
           ''title: Geth Dashboard Ethereum, uid: QC1Arp5WkInfluxDB_eth, datasource: InfluxDB_eth'',
         Urlopen ''https://grafana.com/api/dashboards/13877/revisions/1/download'',
         Open_w ''/grafana-dashboards/single_geth_opt.json'',
         Write ''/grafana-dashboards/single_geth_opt.json''
           ''title: Geth Dashboard Optimism, uid: QC1Arp5WkInfluxDB, datasource: InfluxDB'']\<rparr>"

definition after_eth :: state where
  "after_eth =
     \<lparr>fs = example_fs
        (''/grafana-dashboards/single_geth_eth.json'' \<mapsto> File True
           ''title: Geth Dashboard Ethereum, uid: QC1Arp5WkInfluxDB_eth, datasource: InfluxDB_eth''),
      trace =
        [Urlopen ''https://grafana.com/api/dashboards/13877/revisions/1/download'',
         Open_w ''/grafana-dashboards/single_geth_eth.json'',
         Write ''/grafana-dashboards/single_geth_eth.json''
           ''title: Geth Dashboard Ethereum, uid: QC1Arp5WkInfluxDB_eth, datasource: InfluxDB_eth'']\<rparr>"

subsection \<open>The substitution as the specification words it\<close>

text \<open>
  One pass over the input: wherever one of the tokens starts, its replacement is
  emitted and the scan resumes after the token; every other character is copied.
\<close>

definition token_at :: "(string \<times> string) list \<Rightarrow> string \<Rightarrow> (string \<times> string) option" where
  "token_at rules s = find (\<lambda>(old, new). old \<noteq> [] \<and> prefix old s) rules"

function replace_occurrences :: "(string \<times> string) list \<Rightarrow> string \<Rightarrow> string" where
  "replace_occurrences rules [] = []"
| "replace_occurrences rules (c # cs) =
     (case token_at rules (c # cs) of
        Some (old, new) \<Rightarrow> new @ replace_occurrences rules (drop (length old) (c # cs))
      | None \<Rightarrow> c # replace_occurrences rules cs)"
  by pat_completeness auto
termination
proof (relation "measure (\<lambda>(rules, s). length s)")
  show "wf (measure (\<lambda>(rules, s). length s))"
    by simp
next
  fix rules :: "(string \<times> string) list" and c :: char and cs :: string
    and x2 :: "string \<times> string" and old new :: string
  assume "token_at rules (c # cs) = Some x2" and "(old, new) = x2"
  then have "old \<noteq> []"
    by (auto simp: token_at_def find_Some_iff)
  then show "((rules, drop (length old) (c # cs)), rules, c # cs)
      \<in> measure (\<lambda>(rules, s). length s)"
    by (cases old) auto
next
  fix rules :: "(string \<times> string) list" and c :: char and cs :: string
  show "((rules, cs), rules, c # cs) \<in> measure (\<lambda>(rules, s). length s)"
    by simp
qed

definition spec_substitute :: "dashboard \<Rightarrow> string \<Rightarrow> string" where
  "spec_substitute d text =
     replace_occurrences
       [(''${DS_INFLUXDB}'', replacement d),
        (''Geth Dashboard'', name d),
        (''QC1Arp5Wk'', ''QC1Arp5Wk'' @ replacement d)]
       text"

section \<open>Properties\<close>

subsection \<open>\<^verbatim>\<open>str.replace\<close>: text that cannot start an occurrence is copied\<close>

lemma str_replace_pass:
  assumes "old \<noteq> []" and "hd old \<notin> set x"
  shows "str_replace old new (x @ s) = x @ str_replace old new s"
  using assms
proof (induction x)
  case Nil
  show ?case by simp
next
  case (Cons a x)
  from Cons.prems have "\<not> prefix old (a # x @ s)"
    by (cases old) auto
  with Cons show ?case by simp
qed

lemma str_replace_token:
  assumes "old \<noteq> []"
  shows "str_replace old new (old @ s) = new @ str_replace old new s"
  using assms by (cases old) auto

text \<open>
  A word that holds neither the first character of \<open>old\<close> nor that of \<open>new\<close> starts the
  rewritten text exactly when it starts the original one: a replacement creates no
  occurrence of it and destroys none.
\<close>

lemma prefix_str_replace:
  assumes "old \<noteq> []" and "new \<noteq> []" and "hd old \<notin> set x" and "hd new \<notin> set x"
  shows "prefix x (str_replace old new s) = prefix x s"
  using assms
proof (induction x arbitrary: s)
  case Nil
  show ?case by simp
next
  case (Cons a x)
  show ?case
  proof (cases s)
    case Nil
    with Cons.prems show ?thesis by simp
  next
    case (Cons c cs)
    show ?thesis
    proof (cases "prefix old (c # cs)")
      case True
      with Cons.prems have "c = hd old"
        by (cases old) auto
      with Cons.prems True \<open>s = c # cs\<close> show ?thesis
        by (cases new) auto
    next
      case False
      with Cons.prems Cons.IH [of cs] \<open>s = c # cs\<close> show ?thesis by simp
    qed
  qed
qed

lemma replace_occurrences_token:
  assumes "old \<noteq> []" and "token_at rules (old @ u) = Some (old, new)"
  shows "replace_occurrences rules (old @ u) = new @ replace_occurrences rules u"
  using assms by (cases old) auto

text \<open>
  Three replacements one after the other are one pass over the input, provided no
  replacement text and no token can start or complete an occurrence of a later token.
\<close>

lemma chain_is_single_pass:
  assumes ne: "t1 \<noteq> []" "t2 \<noteq> []" "t3 \<noteq> []" "r1 \<noteq> []" "r2 \<noteq> []"
    and fresh1: "hd t2 \<notin> set r1" "hd t3 \<notin> set r1" "hd t3 \<notin> set r2"
    and apart: "hd t1 \<notin> set t2" "hd t1 \<notin> set t3" "hd t2 \<notin> set t3"
    and fresh2: "hd r1 \<notin> set (tl t2)" "hd r1 \<notin> set (tl t3)" "hd r2 \<notin> set (tl t3)"
  shows "str_replace t3 r3 (str_replace t2 r2 (str_replace t1 r1 s))
       = replace_occurrences [(t1, r1), (t2, r2), (t3, r3)] s"
proof (induction s rule: length_induct)
  case (1 s)
  let ?rules = "[(t1, r1), (t2, r2), (t3, r3)]"
  let ?chain = "\<lambda>s. str_replace t3 r3 (str_replace t2 r2 (str_replace t1 r1 s))"
  show ?case
  proof (cases s)
    case Nil
    with ne show ?thesis by simp
  next
    case (Cons c cs)
    have rest: "?chain u = replace_occurrences ?rules u" if "s = t @ u" "t \<noteq> []" for t u
      using 1 that by (cases t) auto
    consider (p1) "prefix t1 s"
      | (p2) "\<not> prefix t1 s" "prefix t2 s"
      | (p3) "\<not> prefix t1 s" "\<not> prefix t2 s" "prefix t3 s"
      | (none) "\<not> prefix t1 s" "\<not> prefix t2 s" "\<not> prefix t3 s"
      by blast
    then show ?thesis
    proof cases
      case p1
      then obtain u where s: "s = t1 @ u" by (auto simp: prefix_def)
      have "?chain s = r1 @ ?chain u"
        using ne fresh1 by (simp add: s str_replace_token str_replace_pass)
      moreover have "token_at ?rules (t1 @ u) = Some (t1, r1)"
        using ne p1 s by (simp add: token_at_def)
      then have "replace_occurrences ?rules s = r1 @ replace_occurrences ?rules u"
        using ne s by (simp add: replace_occurrences_token)
      ultimately show ?thesis
        using rest [OF s] ne by simp
    next
      case p2
      then obtain u where s: "s = t2 @ u" by (auto simp: prefix_def)
      have "?chain s = r2 @ ?chain u"
        using ne fresh1 apart by (simp add: s str_replace_token str_replace_pass)
      moreover have "token_at ?rules (t2 @ u) = Some (t2, r2)"
        using ne p2 s by (simp add: token_at_def)
      then have "replace_occurrences ?rules s = r2 @ replace_occurrences ?rules u"
        using ne s by (simp add: replace_occurrences_token)
      ultimately show ?thesis
        using rest [OF s] ne by simp
    next
      case p3
      then obtain u where s: "s = t3 @ u" by (auto simp: prefix_def)
      have "?chain s = r3 @ ?chain u"
        using ne fresh1 apart by (simp add: s str_replace_token str_replace_pass)
      moreover have "token_at ?rules (t3 @ u) = Some (t3, r3)"
        using ne p3 s by (simp add: token_at_def)
      then have "replace_occurrences ?rules s = r3 @ replace_occurrences ?rules u"
        using ne s by (simp add: replace_occurrences_token)
      ultimately show ?thesis
        using rest [OF s] ne by simp
    next
      case none
      have a1: "hd t1 \<notin> set (tl t2)" "hd t1 \<notin> set (tl t3)" "hd t2 \<notin> set (tl t3)"
        using apart ne by (auto dest: list.set_sel(2))
      have s1: "str_replace t1 r1 s = c # str_replace t1 r1 cs"
        using none ne Cons by simp
      have n2: "\<not> prefix t2 (c # str_replace t1 r1 cs)"
      proof
        assume p: "prefix t2 (c # str_replace t1 r1 cs)"
        obtain a t where t2: "t2 = a # t" using ne by (cases t2) auto
        from p t2 have "a = c" "prefix t (str_replace t1 r1 cs)" by auto
        then have "prefix t cs"
          using prefix_str_replace [of t1 r1 t cs] ne a1 fresh2 t2 by simp
        with \<open>a = c\<close> t2 Cons none show False by simp
      qed
      have s2: "str_replace t2 r2 (c # str_replace t1 r1 cs)
          = c # str_replace t2 r2 (str_replace t1 r1 cs)"
        using n2 ne by simp
      have n3: "\<not> prefix t3 (c # str_replace t2 r2 (str_replace t1 r1 cs))"
      proof
        assume p: "prefix t3 (c # str_replace t2 r2 (str_replace t1 r1 cs))"
        obtain a t where t3: "t3 = a # t" using ne by (cases t3) auto
        from p t3 have "a = c" "prefix t (str_replace t2 r2 (str_replace t1 r1 cs))" by auto
        then have "prefix t (str_replace t1 r1 cs)"
          using prefix_str_replace [of t2 r2 t "str_replace t1 r1 cs"] ne a1 fresh2 t3 by simp
        then have "prefix t cs"
          using prefix_str_replace [of t1 r1 t cs] ne a1 fresh2 t3 by simp
        with \<open>a = c\<close> t3 Cons none show False by simp
      qed
      have "?chain s = c # ?chain cs"
        using s1 s2 n3 ne by simp
      moreover have "replace_occurrences ?rules s = c # replace_occurrences ?rules cs"
        using none Cons by (simp add: token_at_def)
      moreover have "?chain cs = replace_occurrences ?rules cs"
        using 1 Cons by simp
      ultimately show ?thesis by simp
    qed
  qed
qed

lemma substitute_listed:
  assumes "d \<in> set dashboard_list"
  shows "substitute d text = spec_substitute d text"
proof -
  from assms consider "d = dashboard_list ! 0" | "d = dashboard_list ! 1"
    by (auto simp: dashboard_list_def)
  then show ?thesis
  proof cases
    case 1
    show ?thesis
      unfolding substitute_def spec_substitute_def Let_def
      by (rule chain_is_single_pass) (simp_all add: 1 dashboard_list_def)
  next
    case 2
    show ?thesis
      unfolding substitute_def spec_substitute_def Let_def
      by (rule chain_is_single_pass) (simp_all add: 2 dashboard_list_def)
  qed
qed

subsection \<open>One iteration\<close>

lemma write_at_start: "write_at [] 0 data = data"
  by (simp add: write_at_def)

lemma can_open_w_after_write:
  assumes "can_open_w f q" and "p \<noteq> q"
  shows "can_open_w (f(q \<mapsto> File w x)) p = can_open_w f p"
proof (cases "dirname p = q")
  case True
  with assms show ?thesis
    by (auto simp: can_open_w_def split: option.splits node.splits)
next
  case False
  with assms(2) show ?thesis by (simp add: can_open_w_def split: option.splits)
qed

lemma can_open_w_not_dir:
  "can_open_w f p \<Longrightarrow> f p \<noteq> Some (Dir w)"
  by (auto simp: can_open_w_def)

lemma can_open_w_file:
  "f p = Some (File w c) \<Longrightarrow> can_open_w f p = w"
  by (simp add: can_open_w_def)

lemma mode_after_file:
  "f p = Some (File w c) \<Longrightarrow> mode_after h f p = w"
  by (simp add: mode_after_def)

lemma mode_after_cong:
  "f' p = f p \<Longrightarrow> mode_after h f' p = mode_after h f p"
  by (simp add: mode_after_def)

lemma mode_after_created:
  assumes "can_open_w f p" and "created_writable h"
  shows "mode_after h f p"
  using assms by (auto simp: can_open_w_def mode_after_def split: option.splits node.splits)

text \<open>
  The iteration in closed form: its file system, its exception and its events. The
  truncation done by \<^verbatim>\<open>open\<close> is what makes the file hold the written text only.
\<close>

lemma step_fs_eq:
  "fs (fst (step h s d)) =
     (case net h (requests (trace s)) (url d) of
        None \<Rightarrow> fs s
      | Some r \<Rightarrow>
          (case decode r of
             Inl e \<Rightarrow> fs s
           | Inr t \<Rightarrow>
               if can_open_w (fs s) (target d)
               then (fs s)(target d \<mapsto> File (mode_after h (fs s) (target d))
                      (case write_fault h (target d) (substitute d t) of
                         None \<Rightarrow> substitute d t | Some n \<Rightarrow> take n (substitute d t)))
               else fs s))"
  by (simp add: step_def Let_def log_def open_w_def file_write_def write_at_start
      split: option.splits sum.splits)

lemma step_exn_eq:
  "snd (step h s d) =
     (case net h (requests (trace s)) (url d) of
        None \<Rightarrow> Some URLError
      | Some r \<Rightarrow>
          (case decode r of
             Inl e \<Rightarrow> Some e
           | Inr t \<Rightarrow>
               if can_open_w (fs s) (target d)
               then (case write_fault h (target d) (substitute d t) of
                       None \<Rightarrow> None | Some n \<Rightarrow> Some OSError)
               else Some OSError))"
  by (simp add: step_def Let_def log_def open_w_def file_write_def
      split: option.splits sum.splits)

lemma step_trace_eq:
  "trace (fst (step h s d)) =
     (case net h (requests (trace s)) (url d) of
        None \<Rightarrow> trace s @ [Urlopen (url d)]
      | Some r \<Rightarrow>
          (case decode r of
             Inl e \<Rightarrow> trace s @ [Urlopen (url d)]
           | Inr t \<Rightarrow>
               if can_open_w (fs s) (target d)
               then (case write_fault h (target d) (substitute d t) of
                       None \<Rightarrow> trace s @ [Urlopen (url d), Open_w (target d),
                                  Write (target d) (substitute d t)]
                     | Some n \<Rightarrow> trace s @ [Urlopen (url d), Open_w (target d)])
               else trace s @ [Urlopen (url d), Open_w (target d)]))"
  by (simp add: step_def Let_def log_def open_w_def file_write_def
      split: option.splits sum.splits)

lemma step_fs:
  "fs (fst (step h s d)) = fs s
   \<or> (can_open_w (fs s) (target d)
      \<and> (\<exists>w x. fs (fst (step h s d)) = (fs s)(target d \<mapsto> File w x)))"
  by (auto simp: step_fs_eq split: option.splits sum.splits)

lemma step_frame:
  "p \<noteq> target d \<Longrightarrow> fs (fst (step h s d)) p = fs s p"
  using step_fs [of h s d] by auto

lemma step_openable:
  "p \<noteq> target d \<Longrightarrow> can_open_w (fs (fst (step h s d))) p = can_open_w (fs s) p"
  using step_fs [of h s d] can_open_w_after_write [of "fs s" "target d" p] by auto

lemma step_keeps_dir:
  "fs s p = Some (Dir w) \<Longrightarrow> fs (fst (step h s d)) p = Some (Dir w)"
  using step_fs [of h s d] can_open_w_not_dir [of "fs s" "target d" w]
  by (cases "p = target d") auto

lemma step_requests:
  "requests (trace (fst (step h s d))) = Suc (requests (trace s))"
  by (simp add: step_trace_eq requests_def split: option.splits sum.splits)

lemma step_success:
  assumes "step h s d = (s', None)"
  shows "\<exists>t. net h (requests (trace s)) (url d) = Some (Utf8 t)
     \<and> can_open_w (fs s) (target d)
     \<and> write_fault h (target d) (substitute d t) = None
     \<and> fs s' = (fs s)(target d \<mapsto> File (mode_after h (fs s) (target d)) (substitute d t))
     \<and> trace s' = trace s @ [Urlopen (url d), Open_w (target d),
                               Write (target d) (substitute d t)]"
proof -
  from assms have e: "snd (step h s d) = None" and s': "s' = fst (step h s d)"
    by simp_all
  from e obtain t where t: "net h (requests (trace s)) (url d) = Some (Utf8 t)"
    and o: "can_open_w (fs s) (target d)"
    and w: "write_fault h (target d) (substitute d t) = None"
    by (auto simp: step_exn_eq decode_def
        split: option.splits sum.splits bytes.splits if_splits)
  have "decode (Utf8 t) = Inr t" by (simp add: decode_def)
  with t o w s' show ?thesis
    by (simp add: step_fs_eq step_trace_eq)
qed

lemma step_failure:
  assumes "step h s d = (s', Some e)"
  shows "trace s' = trace s @ [Urlopen (url d)]
       \<or> trace s' = trace s @ [Urlopen (url d), Open_w (target d)]"
proof -
  from assms have e: "snd (step h s d) = Some e" and s': "s' = fst (step h s d)"
    by simp_all
  from e show ?thesis unfolding s'
    by (auto simp: step_exn_eq step_trace_eq split: option.splits sum.splits if_splits)
qed

lemma step_raises:
  "step h s d = (s', Some e) \<Longrightarrow> e = URLError \<or> e = UnicodeDecodeError \<or> e = OSError"
  using step_exn_eq [of h s d]
  by (auto simp: decode_def split: option.splits sum.splits bytes.splits if_splits)

lemma step_succeeds:
  assumes "net h (requests (trace s)) (url d) = Some (Utf8 t)"
    and "can_open_w (fs s) (target d)"
    and "write_fault h (target d) (substitute d t) = None"
  shows "step h s d =
    (\<lparr>fs = (fs s)(target d \<mapsto> File (mode_after h (fs s) (target d)) (substitute d t)),
      trace = trace s @ [Urlopen (url d), Open_w (target d),
                         Write (target d) (substitute d t)]\<rparr>,
     None)"
proof -
  have "decode (Utf8 t) = Inr t" by (simp add: decode_def)
  with assms have "snd (step h s d) = None"
    and "fs (fst (step h s d))
      = (fs s)(target d \<mapsto> File (mode_after h (fs s) (target d)) (substitute d t))"
    and "trace (fst (step h s d))
      = trace s @ [Urlopen (url d), Open_w (target d), Write (target d) (substitute d t)]"
    by (simp_all add: step_exn_eq step_fs_eq step_trace_eq)
  then show ?thesis
    by (cases "step h s d") (auto intro: state.equality)
qed

lemma step_cong:
  assumes "fs b = fs a" and "trace b = trace a"
  shows "fs (fst (step h b d)) = fs (fst (step h a d))"
    and "snd (step h b d) = snd (step h a d)"
    and "trace (fst (step h b d)) = trace (fst (step h a d))"
  using assms
  by (simp_all add: step_fs_eq step_exn_eq step_trace_eq split: option.splits sum.splits)

subsection \<open>The loop\<close>

lemma loop_append:
  "loop h s (xs @ ys) =
     (case loop h s xs of (s', Some e) \<Rightarrow> (s', Some e) | (s', None) \<Rightarrow> loop h s' ys)"
  by (induction xs arbitrary: s) (auto split: prod.splits option.splits)

lemma loop_keeps_dir:
  "fs s p = Some (Dir w) \<Longrightarrow> fs (fst (loop h s ds)) p = Some (Dir w)"
proof (induction ds arbitrary: s)
  case Nil
  then show ?case by simp
next
  case (Cons d ds)
  obtain s1 r where st: "step h s d = (s1, r)" by (cases "step h s d")
  from Cons.prems st have "fs s1 p = Some (Dir w)"
    using step_keeps_dir [of s p w h d] by simp
  with st Cons.IH [of s1] Cons.prems show ?case by (cases r) auto
qed

lemma loop_frame:
  "p \<notin> target ` set ds \<Longrightarrow> fs (fst (loop h s ds)) p = fs s p"
proof (induction ds arbitrary: s)
  case Nil
  show ?case by simp
next
  case (Cons d ds)
  obtain s1 r where st: "step h s d = (s1, r)" by (cases "step h s d")
  from Cons.prems st have "fs s1 p = fs s p"
    using step_frame [of p d h s] by auto
  with st Cons.IH [of s1] Cons.prems show ?case by (cases r) auto
qed

text \<open>
  Running the loop again on the file system it left, with the same events behind it.
  Each destination is written by one iteration only. An iteration that succeeded the
  first time finds its own text in the file: if the file may be opened, it is truncated
  and the same text written; if not (the file was created without write permission),
  the second run stops there and has changed nothing. An iteration that failed the first
  time fails again and leaves the file as the first failure left it.
\<close>

lemma loop_rerun:
  assumes "distinct (map target ds)" and "trace b = trace a"
    and "fs b = fs (fst (loop h a ds))"
  shows "fs (fst (loop h b ds)) = fs b
       \<and> (created_writable h \<longrightarrow>
            snd (loop h b ds) = snd (loop h a ds)
          \<and> trace (fst (loop h b ds)) = trace (fst (loop h a ds)))"
  using assms
proof (induction ds arbitrary: a b)
  case Nil
  then show ?case by simp
next
  case (Cons d ds)
  let ?p = "target d"
  obtain a1 ra where sa: "step h a d = (a1, ra)" by (cases "step h a d")
  obtain b1 rb where sb: "step h b d = (b1, rb)" by (cases "step h b d")
  have a1: "fs a1 = fs (fst (step h a d))" "ra = snd (step h a d)"
    "trace a1 = trace (fst (step h a d))"
    using sa by simp_all
  have b1: "fs b1 = fs (fst (step h b d))" "rb = snd (step h b d)"
    "trace b1 = trace (fst (step h b d))"
    using sb by simp_all
  have req: "requests (trace b) = requests (trace a)"
    using Cons.prems(2) by simp
  show ?case
  proof (cases ra)
    case (Some e)
    then have fb: "fs b = fs a1"
      using Cons.prems(3) sa by simp
    have "fs b1 = fs b \<and> rb = ra \<and> trace b1 = trace a1"
    proof (cases "fs a1 = fs a")
      case True
      with fb have "fs b = fs a" by simp
      from step_cong [OF this Cons.prems(2), of h d] True fb show ?thesis
        unfolding a1 b1 by simp
    next
      case False
      with Some obtain t n where t: "net h (requests (trace a)) (url d) = Some (Utf8 t)"
        and n: "write_fault h ?p (substitute d t) = Some n"
        and fa1: "fs a1 = (fs a)(?p \<mapsto> File (mode_after h (fs a) ?p) (take n (substitute d t)))"
        and ra: "ra = Some OSError"
        and ta1: "trace a1 = trace a @ [Urlopen (url d), Open_w ?p]"
        unfolding a1
        by (auto simp: step_fs_eq step_exn_eq step_trace_eq decode_def
            split: option.splits sum.splits bytes.splits if_splits)
      have dec: "decode (Utf8 t) = Inr t" by (simp add: decode_def)
      from fb fa1 have bp: "fs b ?p = Some (File (mode_after h (fs a) ?p) (take n (substitute d t)))"
        by simp
      show ?thesis
      proof (cases "mode_after h (fs a) ?p")
        case True
        with bp have "can_open_w (fs b) ?p" "mode_after h (fs b) ?p"
          by (simp_all add: can_open_w_file mode_after_file)
        moreover have "(fs b)(?p \<mapsto> File True (take n (substitute d t))) = fs b"
          using bp True by (auto simp: fun_upd_idem_iff)
        ultimately show ?thesis
          unfolding b1 using t n dec req ra ta1 Cons.prems(2)
          by (simp add: step_fs_eq step_exn_eq step_trace_eq)
      next
        case False
        with bp have "\<not> can_open_w (fs b) ?p"
          by (simp add: can_open_w_file)
        then show ?thesis
          unfolding b1 using t dec req ra ta1 Cons.prems(2)
          by (simp add: step_fs_eq step_exn_eq step_trace_eq)
      qed
    qed
    with Some sa sb show ?thesis by (cases rb) auto
  next
    case None
    with sa have rest: "loop h a (d # ds) = loop h a1 ds" by simp
    from None sa step_success [of h a d a1]
    obtain t where t: "net h (requests (trace a)) (url d) = Some (Utf8 t)"
      and o: "can_open_w (fs a) ?p"
      and w: "write_fault h ?p (substitute d t) = None"
      and fa1: "fs a1 = (fs a)(?p \<mapsto> File (mode_after h (fs a) ?p) (substitute d t))"
      and ta1: "trace a1 = trace a @ [Urlopen (url d), Open_w ?p, Write ?p (substitute d t)]"
      by auto
    have dec: "decode (Utf8 t) = Inr t" by (simp add: decode_def)
    from Cons.prems(1) have "?p \<notin> target ` set ds" by simp
    then have "fs (fst (loop h a1 ds)) ?p = fs a1 ?p" by (rule loop_frame)
    with Cons.prems(3) rest fa1
    have bp: "fs b ?p = Some (File (mode_after h (fs a) ?p) (substitute d t))"
      by simp
    show ?thesis
    proof (cases "mode_after h (fs a) ?p")
      case False
      with bp have no: "\<not> can_open_w (fs b) ?p"
        by (simp add: can_open_w_file)
      then have "fs b1 = fs b" "rb = Some OSError"
        unfolding b1 using t dec req
        by (simp_all add: step_fs_eq step_exn_eq)
      moreover have "\<not> created_writable h"
        using False mode_after_created [OF o] by blast
      ultimately show ?thesis using sb by simp
    next
      case True
      with bp have ob: "can_open_w (fs b) ?p" "mode_after h (fs b) ?p"
        by (simp_all add: can_open_w_file mode_after_file)
      have "(fs b)(?p \<mapsto> File True (substitute d t)) = fs b"
        using bp True by (auto simp: fun_upd_idem_iff)
      with ob have sb': "fs b1 = fs b" "rb = None" "trace b1 = trace a1"
        unfolding b1 using t w dec req ta1 Cons.prems(2)
        by (simp_all add: step_fs_eq step_exn_eq step_trace_eq)
      from Cons.prems(1) have "distinct (map target ds)" by simp
      moreover have "fs b1 = fs (fst (loop h a1 ds))"
        using sb' Cons.prems(3) rest by simp
      ultimately have "fs (fst (loop h b1 ds)) = fs b1
         \<and> (created_writable h \<longrightarrow>
              snd (loop h b1 ds) = snd (loop h a1 ds)
            \<and> trace (fst (loop h b1 ds)) = trace (fst (loop h a1 ds)))"
        using Cons.IH [of b1 a1] sb' by simp
      with sb sb' sa None show ?thesis by simp
    qed
  qed
qed

subsection \<open>The module body, gate by gate\<close>

lemma sys_exit_unbound: "sys_exit code = Uncaught (NameError ''sys'')"
  by (simp add: sys_exit_def bound_names_def imported_def)

lemma str_format_no_brace:
  assumes "CHR ''{'' \<notin> set t" and "CHR ''}'' \<notin> set t"
  shows "str_format t args = Inr t"
  using assms by (induction t args rule: str_format.induct) auto

lemma directory_message:
  "str_format ''Dashboard path %s is not writable, exiting'' args
     = Inr ''Dashboard path %s is not writable, exiting''"
  by (rule str_format_no_brace) simp_all

lemma main_unset:
  assumes "environ h ''GF_SECURITY_ADMIN_PASSWORD'' = None"
  shows "main h f =
    (\<lparr>fs = f, trace = [Print ''GF_SECURITY_ADMIN_PASSWORD env value is missing, exiting.'']\<rparr>,
     Uncaught (NameError ''sys''))"
  using assms by (simp add: main_def log_def sys_exit_unbound)

lemma main_no_directory:
  assumes "environ h ''GF_SECURITY_ADMIN_PASSWORD'' = Some v"
    and "\<not> path_exists f dashboard_path \<or> \<not> isdir f dashboard_path \<or> \<not> access_w f dashboard_path"
  shows "main h f =
    (\<lparr>fs = f, trace = [Print ''Dashboard path %s is not writable, exiting'']\<rparr>,
     Uncaught (NameError ''sys''))"
  using assms by (auto simp: main_def log_def sys_exit_unbound directory_message)

lemma main_loop:
  assumes "environ h ''GF_SECURITY_ADMIN_PASSWORD'' = Some v"
    and "path_exists f dashboard_path" "isdir f dashboard_path" "access_w f dashboard_path"
  shows "main h f =
    (case loop h \<lparr>fs = f, trace = []\<rparr> dashboard_list of
       (s', Some e) \<Rightarrow> (s', Uncaught e)
     | (s', None) \<Rightarrow> (s', Finished))"
  using assms by (simp add: main_def)

lemma gate_iff:
  "(path_exists f p \<and> isdir f p \<and> access_w f p) = (f p = Some (Dir True))"
  by (auto simp: path_exists_def isdir_def access_w_def split: option.splits node.splits)


subsection \<open>Runs in which every iteration succeeds\<close>

lemma writes_append: "writes (xs @ ys) = writes xs @ writes ys"
  by (induction xs rule: writes.induct) auto

lemma loop_all_succeed:
  assumes "distinct (map target ds)"
    and "\<forall>i<length ds. \<exists>t. net h (requests (trace s) + i) (url (ds ! i)) = Some (Utf8 t)
      \<and> write_fault h (target (ds ! i)) (substitute (ds ! i) t) = None
      \<and> can_open_w (fs s) (target (ds ! i))"
  shows "snd (loop h s ds) = None
       \<and> map fst (writes (trace (fst (loop h s ds)))) = map fst (writes (trace s)) @ map target ds"
  using assms
proof (induction ds arbitrary: s)
  case Nil
  show ?case by simp
next
  case (Cons d ds)
  from Cons.prems(2) [rule_format, of 0]
  obtain t where t: "net h (requests (trace s)) (url d) = Some (Utf8 t)"
    "write_fault h (target d) (substitute d t) = None" "can_open_w (fs s) (target d)"
    by auto
  define s1 where "s1 = fst (step h s d)"
  have st: "step h s d = (s1, None)"
    using step_succeeds [OF t(1) t(3) t(2)] by (simp add: s1_def)
  have w1: "writes (trace s1) = writes (trace s) @ [(target d, substitute d t)]"
    using step_succeeds [OF t(1) t(3) t(2)] by (simp add: s1_def writes_append)
  have "\<forall>i<length ds. \<exists>t. net h (requests (trace s1) + i) (url (ds ! i)) = Some (Utf8 t)
      \<and> write_fault h (target (ds ! i)) (substitute (ds ! i) t) = None
      \<and> can_open_w (fs s1) (target (ds ! i))"
  proof (intro allI impI)
    fix i assume i: "i < length ds"
    then have "target (ds ! i) \<in> target ` set ds"
      by (intro imageI nth_mem)
    with Cons.prems(1) have "target (ds ! i) \<noteq> target d"
      by auto
    then have "can_open_w (fs s1) (target (ds ! i)) = can_open_w (fs s) (target (ds ! i))"
      unfolding s1_def by (rule step_openable)
    with i Cons.prems(2) [rule_format, of "Suc i"]
    show "\<exists>t. net h (requests (trace s1) + i) (url (ds ! i)) = Some (Utf8 t)
      \<and> write_fault h (target (ds ! i)) (substitute (ds ! i) t) = None
      \<and> can_open_w (fs s1) (target (ds ! i))"
      by (simp add: s1_def step_requests)
  qed
  moreover from Cons.prems(1) have "distinct (map target ds)" by simp
  ultimately show ?case
    using Cons.IH [of s1] st w1 by simp
qed

lemma loop_success_files:
  assumes "loop h s ds = (s', None)" and "distinct (map target ds)" and "i < length ds"
  shows "\<exists>t. net h (requests (trace s) + i) (url (ds ! i)) = Some (Utf8 t)
       \<and> fs s' (target (ds ! i))
           = Some (File (mode_after h (fs s) (target (ds ! i))) (substitute (ds ! i) t))"
  using assms
proof (induction ds arbitrary: s i)
  case Nil
  then show ?case by simp
next
  case (Cons d ds)
  obtain s1 r where st: "step h s d = (s1, r)" by (cases "step h s d")
  with Cons.prems(1) have r: "r = None" and rest: "loop h s1 ds = (s', None)"
    by (cases r; simp)+
  from step_success [of h s d s1] st r
  obtain t where t: "net h (requests (trace s)) (url d) = Some (Utf8 t)"
    and f1: "fs s1 = (fs s)(target d \<mapsto> File (mode_after h (fs s) (target d)) (substitute d t))"
    by auto
  show ?case
  proof (cases i)
    case 0
    from Cons.prems(2) have "target d \<notin> target ` set ds" by simp
    then have "fs (fst (loop h s1 ds)) (target d) = fs s1 (target d)"
      by (rule loop_frame)
    with rest f1 t 0 show ?thesis by simp
  next
    case (Suc j)
    with Cons.prems have d: "distinct (map target ds)" and j: "j < length ds" by simp_all
    from Cons.IH [OF rest d j]
    have "\<exists>t. net h (requests (trace s1) + j) (url (ds ! j)) = Some (Utf8 t)
       \<and> fs s' (target (ds ! j))
           = Some (File (mode_after h (fs s1) (target (ds ! j))) (substitute (ds ! j) t))" .
    moreover have "requests (trace s1) = Suc (requests (trace s))"
      using step_requests [of h s d] st by simp
    moreover have "target (ds ! j) \<in> target ` set ds"
      using j by (intro imageI nth_mem)
    then have "target (ds ! j) \<noteq> target d"
      using Cons.prems(2) by auto
    then have "mode_after h (fs s1) (target (ds ! j)) = mode_after h (fs s) (target (ds ! j))"
      using f1 by (simp add: mode_after_def)
    ultimately show ?thesis using Suc by simp
  qed
qed

lemma path_join_inject:
  assumes "\<not> prefix ''/'' a" and "\<not> prefix ''/'' b" and "path_join p a = path_join p b"
  shows "a = b"
  using assms by (auto simp: path_join_def split: if_splits)

lemma distinct_targets:
  assumes "distinct (map filename ds)" and "\<forall>d\<in>set ds. \<not> prefix ''/'' (filename d)"
  shows "distinct (map target ds)"
proof -
  have "inj_on (\<lambda>d. path_join dashboard_path (filename d)) (set ds)" if "distinct (map filename ds)"
    using assms(2) that
    by (auto simp: distinct_map inj_on_def dest!: path_join_inject) 
  with assms(1) show ?thesis
    unfolding target_def [abs_def] by (simp add: distinct_map)
qed

subsection \<open>The listed descriptors and the sample run, evaluated\<close>

lemma target_eth: "target eth_dashboard = ''/grafana-dashboards/single_geth_eth.json''"
  by (simp add: target_def eth_dashboard_def opt_dashboard_def dashboard_list_def dashboard_path_def path_join_def)

lemma target_opt: "target opt_dashboard = ''/grafana-dashboards/single_geth_opt.json''"
  by (simp add: target_def eth_dashboard_def opt_dashboard_def dashboard_list_def dashboard_path_def path_join_def)

lemma substitute_eth:
  "substitute eth_dashboard example_text
     = ''title: Geth Dashboard Ethereum, uid: QC1Arp5WkInfluxDB_eth, datasource: InfluxDB_eth''"
  by (simp add: substitute_def eth_dashboard_def opt_dashboard_def dashboard_list_def example_text_def)

lemma substitute_opt:
  "substitute opt_dashboard example_text
     = ''title: Geth Dashboard Optimism, uid: QC1Arp5WkInfluxDB, datasource: InfluxDB''"
  by (simp add: substitute_def eth_dashboard_def opt_dashboard_def dashboard_list_def example_text_def)

lemma dashboard_list_nth: "dashboard_list = [eth_dashboard, opt_dashboard]"
  by (simp add: dashboard_list_def eth_dashboard_def opt_dashboard_def)

lemma listed_urls:
  "url eth_dashboard = ''https://grafana.com/api/dashboards/13877/revisions/1/download''"
  "url opt_dashboard = ''https://grafana.com/api/dashboards/13877/revisions/1/download''"
  by (simp_all add: eth_dashboard_def opt_dashboard_def dashboard_list_def)

lemma dirname_targets:
  "dirname ''/grafana-dashboards/single_geth_eth.json'' = dashboard_path"
  "dirname ''/grafana-dashboards/single_geth_opt.json'' = dashboard_path"
  by (simp_all add: dirname_def dashboard_path_def)


lemma can_open_targets:
  assumes "f dashboard_path = Some (Dir True)"
    and "f ''/grafana-dashboards/single_geth_eth.json'' = None
       \<or> (\<exists>c. f ''/grafana-dashboards/single_geth_eth.json'' = Some (File True c))"
    and "f ''/grafana-dashboards/single_geth_opt.json'' = None
       \<or> (\<exists>c. f ''/grafana-dashboards/single_geth_opt.json'' = Some (File True c))"
  shows "can_open_w f (target eth_dashboard)" "can_open_w f (target opt_dashboard)"
  using assms unfolding target_eth target_opt can_open_w_def dirname_targets
  by auto

text \<open>The sample run: both requests answer \<open>example_text\<close>, no write is refused.\<close>

lemma sample_run:
  assumes env: "environ h ''GF_SECURITY_ADMIN_PASSWORD'' = Some v"
    and net: "net h = (\<lambda>n u. Some (Utf8 example_text))"
    and disk: "write_fault h = (\<lambda>p data. None)"
    and dir: "f dashboard_path = Some (Dir True)"
    and eth: "f ''/grafana-dashboards/single_geth_eth.json'' = None
       \<or> (\<exists>c. f ''/grafana-dashboards/single_geth_eth.json'' = Some (File True c))"
    and opt: "f ''/grafana-dashboards/single_geth_opt.json'' = None
       \<or> (\<exists>c. f ''/grafana-dashboards/single_geth_opt.json'' = Some (File True c))"
  shows "main h f =
    (\<lparr>fs = f(''/grafana-dashboards/single_geth_eth.json'' \<mapsto>
             File (mode_after h f ''/grafana-dashboards/single_geth_eth.json'')
             ''title: Geth Dashboard Ethereum, uid: QC1Arp5WkInfluxDB_eth, datasource: InfluxDB_eth'',
           ''/grafana-dashboards/single_geth_opt.json'' \<mapsto>
             File (mode_after h f ''/grafana-dashboards/single_geth_opt.json'')
             ''title: Geth Dashboard Optimism, uid: QC1Arp5WkInfluxDB, datasource: InfluxDB''),
      trace = trace example_done\<rparr>, Finished)"
proof -
  let ?s0 = "\<lparr>fs = f, trace = []\<rparr>"
  have o: "can_open_w f (target eth_dashboard)" "can_open_w f (target opt_dashboard)"
    using can_open_targets [OF dir eth opt] .
  have 1: "step h ?s0 eth_dashboard =
      (\<lparr>fs = f(target eth_dashboard \<mapsto>
               File (mode_after h f (target eth_dashboard))
                 (substitute eth_dashboard example_text)),
        trace = [Urlopen (url eth_dashboard), Open_w (target eth_dashboard),
                 Write (target eth_dashboard) (substitute eth_dashboard example_text)]\<rparr>,
       None)" (is "_ = (?s1, None)")
    using step_succeeds [of h ?s0 eth_dashboard example_text] o
    by (simp add: net disk)
  have r1: "requests (trace ?s1) = 1"
    by (simp add: requests_def)
  have o1: "can_open_w (fs ?s1) (target opt_dashboard)"
    using o by (simp add: can_open_w_after_write target_eth target_opt)
  have m1: "mode_after h (fs ?s1) (target opt_dashboard) = mode_after h f (target opt_dashboard)"
    by (rule mode_after_cong) (simp add: target_eth target_opt)
  have 2: "step h ?s1 opt_dashboard =
      (\<lparr>fs = (fs ?s1)(target opt_dashboard \<mapsto>
               File (mode_after h f (target opt_dashboard))
                 (substitute opt_dashboard example_text)),
        trace = trace ?s1 @ [Urlopen (url opt_dashboard), Open_w (target opt_dashboard),
                 Write (target opt_dashboard) (substitute opt_dashboard example_text)]\<rparr>,
       None)"
    using step_succeeds [of h ?s1 opt_dashboard example_text] o1 m1
    by (simp add: net disk)
  have "loop h ?s0 dashboard_list = loop h ?s0 [eth_dashboard, opt_dashboard]"
    by (simp only: dashboard_list_nth)
  also have "\<dots> =
      (\<lparr>fs = (fs ?s1)(target opt_dashboard \<mapsto>
               File (mode_after h f (target opt_dashboard))
                 (substitute opt_dashboard example_text)),
        trace = trace ?s1 @ [Urlopen (url opt_dashboard), Open_w (target opt_dashboard),
                 Write (target opt_dashboard) (substitute opt_dashboard example_text)]\<rparr>,
       None)"
    by (simp only: loop.simps 1 2 prod.case option.case)
  finally have "loop h ?s0 dashboard_list =
      (\<lparr>fs = f(''/grafana-dashboards/single_geth_eth.json'' \<mapsto>
             File (mode_after h f ''/grafana-dashboards/single_geth_eth.json'')
             ''title: Geth Dashboard Ethereum, uid: QC1Arp5WkInfluxDB_eth, datasource: InfluxDB_eth'',
           ''/grafana-dashboards/single_geth_opt.json'' \<mapsto>
             File (mode_after h f ''/grafana-dashboards/single_geth_opt.json'')
             ''title: Geth Dashboard Optimism, uid: QC1Arp5WkInfluxDB, datasource: InfluxDB''),
      trace = trace example_done\<rparr>, None)"
    by (simp add: target_eth target_opt substitute_eth substitute_opt listed_urls example_done_def)
  moreover have "path_exists f dashboard_path" "isdir f dashboard_path" "access_w f dashboard_path"
    using dir by (simp_all add: path_exists_def isdir_def access_w_def)
  ultimately show ?thesis
    using main_loop [OF env] by simp
qed

lemma example_run: "main example_host example_fs = (example_done, Finished)"
  using sample_run [of example_host "''secret''" example_fs]
  by (simp add: example_host_def example_fs_def dashboard_path_def mode_after_def
      example_done_def)

lemma loop_success_requests:
  "loop h s ds = (s', None) \<Longrightarrow> requests (trace s') = requests (trace s) + length ds"
proof (induction ds arbitrary: s)
  case Nil
  then show ?case by simp
next
  case (Cons d ds)
  obtain s1 r where st: "step h s d = (s1, r)" by (cases "step h s d")
  with Cons.prems have r: "r = None" and rest: "loop h s1 ds = (s', None)"
    by (cases r; simp)+
  from step_requests [of h s d] st have "requests (trace s1) = Suc (requests (trace s))"
    by simp
  with Cons.IH [OF rest] show ?case by simp
qed

lemma listed_targets_distinct: "distinct (map target dashboard_list)"
  by (simp add: dashboard_list_nth target_eth target_opt)

lemma example_loop:
  "loop example_host \<lparr>fs = example_fs, trace = []\<rparr> dashboard_list = (example_done, None)"
proof -
  have "main example_host example_fs =
    (case loop example_host \<lparr>fs = example_fs, trace = []\<rparr> dashboard_list of
       (s', Some e) \<Rightarrow> (s', Uncaught e)
     | (s', None) \<Rightarrow> (s', Finished))"
    by (rule main_loop [where v = "''secret''"])
      (simp_all add: example_host_def example_fs_def path_exists_def isdir_def access_w_def)
  with example_run show ?thesis
    by (auto split: prod.splits option.splits)
qed

lemma example_modes:
  "mode_after example_host example_fs (target eth_dashboard)"
  "mode_after example_host example_fs (target opt_dashboard)"
  by (simp_all add: mode_after_def example_host_def example_fs_def dashboard_path_def
      target_eth target_opt)

lemma second_fetch_fails_steps:
  "step second_fetch_fails_host \<lparr>fs = example_fs, trace = []\<rparr> eth_dashboard = (after_eth, None)"
  "step second_fetch_fails_host after_eth opt_dashboard
     = (after_eth\<lparr>trace := trace after_eth
          @ [Urlopen ''https://grafana.com/api/dashboards/13877/revisions/1/download'']\<rparr>,
        Some URLError)"
proof -
  let ?s = "\<lparr>fs = example_fs, trace = []\<rparr>"
  have n: "net second_fetch_fails_host (requests (trace ?s)) (url eth_dashboard)
      = Some (Utf8 example_text)"
    by (simp add: second_fetch_fails_host_def requests_def)
  have o: "can_open_w (fs ?s) (target eth_dashboard)"
    using can_open_targets(1) [of example_fs] by (simp add: example_fs_def dashboard_path_def)
  have w: "write_fault second_fetch_fails_host (target eth_dashboard)
      (substitute eth_dashboard example_text) = None"
    by (simp add: second_fetch_fails_host_def example_host_def)
  have "created_writable second_fetch_fails_host"
    by (simp add: second_fetch_fails_host_def example_host_def)
  from mode_after_created [OF o this] step_succeeds [OF n o w]
  show "step second_fetch_fails_host ?s eth_dashboard = (after_eth, None)"
    by (simp add: target_eth substitute_eth listed_urls after_eth_def)
  have "requests (trace after_eth) = 1"
    by (simp add: after_eth_def requests_def)
  then have "net second_fetch_fails_host (requests (trace after_eth)) (url opt_dashboard) = None"
    by (simp add: second_fetch_fails_host_def)
  then show "step second_fetch_fails_host after_eth opt_dashboard
     = (after_eth\<lparr>trace := trace after_eth
          @ [Urlopen ''https://grafana.com/api/dashboards/13877/revisions/1/download'']\<rparr>,
        Some URLError)"
    by (simp add: step_def Let_def log_def listed_urls)
qed

text \<open>
  The sample run on a host whose created files are not writable for it: the first run
  creates both files, the second cannot open the first of them.
\<close>

lemma readonly_rerun:
  "main readonly_umask_host example_fs =
    (\<lparr>fs = example_fs(''/grafana-dashboards/single_geth_eth.json'' \<mapsto> File False
             ''title: Geth Dashboard Ethereum, uid: QC1Arp5WkInfluxDB_eth, datasource: InfluxDB_eth'',
           ''/grafana-dashboards/single_geth_opt.json'' \<mapsto> File False
             ''title: Geth Dashboard Optimism, uid: QC1Arp5WkInfluxDB, datasource: InfluxDB''),
      trace = trace example_done\<rparr>, Finished)"
  "snd (main readonly_umask_host (fs (fst (main readonly_umask_host example_fs))))
     = Uncaught OSError"
proof -
  let ?h = readonly_umask_host
  show 1: "main ?h example_fs =
    (\<lparr>fs = example_fs(''/grafana-dashboards/single_geth_eth.json'' \<mapsto> File False
             ''title: Geth Dashboard Ethereum, uid: QC1Arp5WkInfluxDB_eth, datasource: InfluxDB_eth'',
           ''/grafana-dashboards/single_geth_opt.json'' \<mapsto> File False
             ''title: Geth Dashboard Optimism, uid: QC1Arp5WkInfluxDB, datasource: InfluxDB''),
      trace = trace example_done\<rparr>, Finished)" (is "_ = (?s1, _)")
    using sample_run [of ?h "''secret''" example_fs]
    by (simp add: readonly_umask_host_def example_host_def example_fs_def dashboard_path_def
        mode_after_def)
  let ?b = "\<lparr>fs = fs ?s1, trace = []\<rparr>"
  have env: "environ ?h ''GF_SECURITY_ADMIN_PASSWORD'' = Some ''secret''"
    by (simp add: readonly_umask_host_def example_host_def)
  have dir: "fs ?s1 dashboard_path = Some (Dir True)"
    by (simp add: example_fs_def dashboard_path_def)
  then have g: "path_exists (fs ?s1) dashboard_path" "isdir (fs ?s1) dashboard_path"
      "access_w (fs ?s1) dashboard_path"
    using gate_iff [of "fs ?s1" dashboard_path] by simp_all
  have "\<not> can_open_w (fs ?b) (target eth_dashboard)"
    by (simp add: can_open_w_def target_eth)
  moreover have "net ?h (requests (trace ?b)) (url eth_dashboard) = Some (Utf8 example_text)"
    by (simp add: readonly_umask_host_def example_host_def)
  moreover have "decode (Utf8 example_text) = Inr example_text"
    by (simp add: decode_def)
  ultimately have "snd (step ?h ?b eth_dashboard) = Some OSError"
    by (simp add: step_exn_eq)
  then obtain b1 where "step ?h ?b eth_dashboard = (b1, Some OSError)"
    by (cases "step ?h ?b eth_dashboard") simp
  then have "loop ?h ?b dashboard_list = (b1, Some OSError)"
    by (simp only: dashboard_list_nth loop.simps prod.case option.case)
  then have "main ?h (fs ?s1) = (b1, Uncaught OSError)"
    using main_loop [OF env g] by (simp only: prod.case option.case)
  then have "snd (main ?h (fs ?s1)) = Uncaught OSError"
    by simp
  with 1 show "snd (main ?h (fs (fst (main ?h example_fs)))) = Uncaught OSError"
    by simp
qed

section \<open>The claims\<close>

text \<open>
  Claim C1. For each descriptor of \<open>dashboard_list\<close> and every downloaded text, the text
  written to the descriptor's file is the input with every occurrence of
  \<^verbatim>\<open>${DS_INFLUXDB}\<close> replaced by the descriptor's replacement, every occurrence of
  \<^verbatim>\<open>Geth Dashboard\<close> by its name and every occurrence of \<^verbatim>\<open>QC1Arp5Wk\<close> by \<^verbatim>\<open>QC1Arp5Wk\<close>
  followed by the replacement, all other text unchanged: the three successive
  \<^verbatim>\<open>str.replace\<close> calls of the script amount to the single pass \<open>spec_substitute\<close> over the
  input. The text need not even hold the three tokens. The file keeps the permission it
  had, or gets the one the host gives to created files (\<open>mode_after\<close>).
\<close>

theorem written_text_is_substituted:
  assumes "d \<in> set dashboard_list"
    and "net h (requests (trace s)) (url d) = Some (Utf8 text)"
    and "step h s d = (s', None)"
  shows "fs s' (target d)
           = Some (File (mode_after h (fs s) (target d)) (spec_substitute d text))
       \<and> substitute d text = spec_substitute d text"
proof -
  from step_success [OF assms(3)] assms(2)
  have "fs s' = (fs s)(target d \<mapsto> File (mode_after h (fs s) (target d)) (substitute d text))"
    by auto
  with substitute_listed [OF assms(1)] show ?thesis by simp
qed

text \<open>
  The scenario of the specification: the descriptor for Ethereum, a text that holds the
  three tokens.
\<close>

theorem written_text_is_substituted_witness:
  "eth_dashboard \<in> set dashboard_list
   \<and> net example_host 0 (url eth_dashboard) = Some (Utf8 example_text)
   \<and> snd (step example_host \<lparr>fs = example_fs, trace = []\<rparr> eth_dashboard) = None
   \<and> example_text = ''title: Geth Dashboard, uid: QC1Arp5Wk, datasource: ${DS_INFLUXDB}''
   \<and> fs (fst (step example_host \<lparr>fs = example_fs, trace = []\<rparr> eth_dashboard))
        ''/grafana-dashboards/single_geth_eth.json''
      = Some (File True
          ''title: Geth Dashboard Ethereum, uid: QC1Arp5WkInfluxDB_eth, datasource: InfluxDB_eth'')"
proof -
  let ?s = "\<lparr>fs = example_fs, trace = []\<rparr>"
  have d: "eth_dashboard \<in> set dashboard_list"
    by (simp add: dashboard_list_nth)
  have n: "net example_host (requests (trace ?s)) (url eth_dashboard) = Some (Utf8 example_text)"
    by (simp add: example_host_def)
  have o: "can_open_w (fs ?s) (target eth_dashboard)"
    using can_open_targets(1) [of example_fs] by (simp add: example_fs_def dashboard_path_def)
  have w: "write_fault example_host (target eth_dashboard) (substitute eth_dashboard example_text) = None"
    by (simp add: example_host_def)
  have st: "step example_host ?s eth_dashboard = (fst (step example_host ?s eth_dashboard), None)"
    using step_succeeds [OF n o w] by simp
  have "created_writable example_host"
    by (simp add: example_host_def)
  from written_text_is_substituted [OF d n st] mode_after_created [OF o this]
  have "fs (fst (step example_host ?s eth_dashboard)) (target eth_dashboard)
          = Some (File True (substitute eth_dashboard example_text))"
    by simp
  then have "fs (fst (step example_host ?s eth_dashboard))
        ''/grafana-dashboards/single_geth_eth.json''
      = Some (File True
          ''title: Geth Dashboard Ethereum, uid: QC1Arp5WkInfluxDB_eth, datasource: InfluxDB_eth'')"
    by (simp only: target_eth substitute_eth)
  moreover have "snd (step example_host ?s eth_dashboard) = None"
    using st by (metis snd_conv)
  moreover have "net example_host 0 (url eth_dashboard) = Some (Utf8 example_text)"
    by (simp add: example_host_def)
  moreover have "example_text = ''title: Geth Dashboard, uid: QC1Arp5Wk, datasource: ${DS_INFLUXDB}''"
    by (simp add: example_text_def)
  ultimately show ?thesis
    using d by blast
qed

text \<open>
  Claim C2, as amended. If the credential variable \<^verbatim>\<open>GF_SECURITY_ADMIN_PASSWORD\<close> is unset,
  the run prints the diagnostic, makes no network request, opens and writes no file,
  leaves the file system as it found it and ends with a non-zero exit status. The
  script tests \<^verbatim>\<open>is None\<close>: a variable set to the empty string is a present credential.
\<close>

theorem missing_credential_stops_before_io:
  assumes "environ h ''GF_SECURITY_ADMIN_PASSWORD'' = None"
  shows "trace (fst (main h f))
           = [Print ''GF_SECURITY_ADMIN_PASSWORD env value is missing, exiting.'']
       \<and> requests (trace (fst (main h f))) = 0
       \<and> writes (trace (fst (main h f))) = []
       \<and> fs (fst (main h f)) = f
       \<and> exit_status (snd (main h f)) \<noteq> 0"
  using main_unset [OF assms, of f] by (simp add: requests_def)

text \<open>The sample host with the variable removed.\<close>

theorem missing_credential_stops_before_io_witness:
  "environ unset_host ''GF_SECURITY_ADMIN_PASSWORD'' = None
   \<and> trace (fst (main unset_host example_fs))
       = [Print ''GF_SECURITY_ADMIN_PASSWORD env value is missing, exiting.'']
   \<and> requests (trace (fst (main unset_host example_fs))) = 0
   \<and> writes (trace (fst (main unset_host example_fs))) = []
   \<and> fs (fst (main unset_host example_fs)) = example_fs
   \<and> exit_status (snd (main unset_host example_fs)) \<noteq> 0"
proof -
  have u: "environ unset_host ''GF_SECURITY_ADMIN_PASSWORD'' = None"
    by (simp add: unset_host_def)
  from missing_credential_stops_before_io [OF u, of example_fs] u show ?thesis
    by blast
qed

text \<open>
  The claim as written also stops the run when the variable is set to the empty
  string. It does not: with the empty string the run passes the gate, makes both
  requests, writes both files and ends with exit status 0.
\<close>

theorem empty_credential_passes_the_gate:
  "environ empty_password_host ''GF_SECURITY_ADMIN_PASSWORD'' = Some []
   \<and> requests (trace (fst (main empty_password_host example_fs))) = 2
   \<and> map fst (writes (trace (fst (main empty_password_host example_fs))))
       = [''/grafana-dashboards/single_geth_eth.json'', ''/grafana-dashboards/single_geth_opt.json'']
   \<and> fs (fst (main empty_password_host example_fs)) \<noteq> example_fs
   \<and> exit_status (snd (main empty_password_host example_fs)) = 0"
proof -
  have "main empty_password_host example_fs =
    (\<lparr>fs = example_fs(''/grafana-dashboards/single_geth_eth.json'' \<mapsto> File True
             ''title: Geth Dashboard Ethereum, uid: QC1Arp5WkInfluxDB_eth, datasource: InfluxDB_eth'',
           ''/grafana-dashboards/single_geth_opt.json'' \<mapsto> File True
             ''title: Geth Dashboard Optimism, uid: QC1Arp5WkInfluxDB, datasource: InfluxDB''),
      trace = trace example_done\<rparr>, Finished)" (is "_ = (?s, _)")
    using sample_run [of empty_password_host "''''" example_fs]
    by (simp add: empty_password_host_def example_host_def example_fs_def dashboard_path_def
        mode_after_def)
  moreover have "fs ?s ''/grafana-dashboards/single_geth_opt.json''
      \<noteq> example_fs ''/grafana-dashboards/single_geth_opt.json''"
    by (simp add: example_fs_def dashboard_path_def)
  then have "fs ?s \<noteq> example_fs" by metis
  moreover have "requests (trace example_done) = 2"
    "map fst (writes (trace example_done))
       = [''/grafana-dashboards/single_geth_eth.json'', ''/grafana-dashboards/single_geth_opt.json'']"
    by (simp_all add: example_done_def requests_def)
  moreover have "environ empty_password_host ''GF_SECURITY_ADMIN_PASSWORD'' = Some []"
    by (simp add: empty_password_host_def)
  ultimately show ?thesis by simp
qed

text \<open>
  Claim C3. If the credential is present and the destination path does not exist, or is
  a file, or is a directory the process may not write, the run prints a diagnostic,
  makes no network request, touches no file and ends with a non-zero exit status.
\<close>

theorem unusable_directory_stops_before_requests:
  assumes "environ h ''GF_SECURITY_ADMIN_PASSWORD'' = Some v"
    and "f dashboard_path = None
       \<or> (\<exists>w c. f dashboard_path = Some (File w c))
       \<or> f dashboard_path = Some (Dir False)"
  shows "(\<exists>msg. trace (fst (main h f)) = [Print msg])
       \<and> requests (trace (fst (main h f))) = 0
       \<and> writes (trace (fst (main h f))) = []
       \<and> fs (fst (main h f)) = f
       \<and> exit_status (snd (main h f)) \<noteq> 0"
proof -
  from assms(2) have "f dashboard_path \<noteq> Some (Dir True)" by auto
  then have "\<not> path_exists f dashboard_path \<or> \<not> isdir f dashboard_path
      \<or> \<not> access_w f dashboard_path"
    using gate_iff [of f dashboard_path] by blast
  from main_no_directory [OF assms(1) this] show ?thesis
    by (simp add: requests_def)
qed

text \<open>The three cases: no such path, a file at the path, a read-only directory.\<close>

theorem unusable_directory_stops_before_requests_witness:
  "environ example_host ''GF_SECURITY_ADMIN_PASSWORD'' = Some ''secret''
   \<and> missing_fs dashboard_path = None
   \<and> requests (trace (fst (main example_host missing_fs))) = 0
   \<and> exit_status (snd (main example_host missing_fs)) \<noteq> 0
   \<and> file_fs dashboard_path = Some (File True ''not a directory'')
   \<and> requests (trace (fst (main example_host file_fs))) = 0
   \<and> exit_status (snd (main example_host file_fs)) \<noteq> 0
   \<and> readonly_fs dashboard_path = Some (Dir False)
   \<and> requests (trace (fst (main example_host readonly_fs))) = 0
   \<and> exit_status (snd (main example_host readonly_fs)) \<noteq> 0"
proof -
  have e: "environ example_host ''GF_SECURITY_ADMIN_PASSWORD'' = Some ''secret''"
    by (simp add: example_host_def)
  have m: "missing_fs dashboard_path = None"
    by (simp add: missing_fs_def)
  have f: "file_fs dashboard_path = Some (File True ''not a directory'')"
    by (simp add: file_fs_def)
  have r: "readonly_fs dashboard_path = Some (Dir False)"
    by (simp add: readonly_fs_def)
  from unusable_directory_stops_before_requests [of example_host "''secret''" missing_fs] e m
  have 1: "requests (trace (fst (main example_host missing_fs))) = 0
      \<and> exit_status (snd (main example_host missing_fs)) \<noteq> 0"
    by auto
  from unusable_directory_stops_before_requests [of example_host "''secret''" file_fs] e f
  have 2: "requests (trace (fst (main example_host file_fs))) = 0
      \<and> exit_status (snd (main example_host file_fs)) \<noteq> 0"
    by auto
  from unusable_directory_stops_before_requests [of example_host "''secret''" readonly_fs] e r
  have 3: "requests (trace (fst (main example_host readonly_fs))) = 0
      \<and> exit_status (snd (main example_host readonly_fs)) \<noteq> 0"
    by auto
  from 1 2 3 e m f r show ?thesis by blast
qed

text \<open>
  Claim C4. If processing the descriptor at position \<open>i\<close> raises (the fetch, the decoding
  or the write fails) after the descriptors before it were processed, the loop ends there
  with that exception, whatever descriptors follow: nothing is fetched, substituted or
  written for them, and the failing descriptor is not tried again (its one request is the
  last request). Every file other than the failing descriptor's own destination is as the
  earlier iterations left it; with pairwise distinct destinations, as in
  \<open>dashboard_list\<close>, each earlier descriptor's file still holds its own rewritten text.
\<close>

theorem failure_stops_the_loop:
  assumes "i < length ds"
    and "loop h s (take i ds) = (s1, None)"
    and "step h s1 (ds ! i) = (s2, Some e)"
  shows "loop h s ds = (s2, Some e)
       \<and> (\<forall>later. loop h s (take (Suc i) ds @ later) = (s2, Some e))
       \<and> (e = URLError \<or> e = UnicodeDecodeError \<or> e = OSError)
       \<and> (trace s2 = trace s1 @ [Urlopen (url (ds ! i))]
          \<or> trace s2 = trace s1 @ [Urlopen (url (ds ! i)), Open_w (target (ds ! i))])
       \<and> (\<forall>p. p \<noteq> target (ds ! i) \<longrightarrow> fs s2 p = fs s1 p)
       \<and> (distinct (map target ds) \<longrightarrow>
            (\<forall>j<i. \<exists>t. net h (requests (trace s) + j) (url (ds ! j)) = Some (Utf8 t)
                \<and> fs s2 (target (ds ! j))
                    = Some (File (mode_after h (fs s) (target (ds ! j))) (substitute (ds ! j) t))))"
proof -
  have stop: "loop h s (take (Suc i) ds @ later) = (s2, Some e)" for later
  proof -
    have "take (Suc i) ds @ later = take i ds @ (ds ! i # later)"
      using assms(1) by (simp add: take_Suc_conv_app_nth)
    then show ?thesis
      using assms(2,3) by (simp add: loop_append)
  qed
  have "loop h s ds = loop h s (take (Suc i) ds @ drop (Suc i) ds)"
    by simp
  then have all: "loop h s ds = (s2, Some e)"
    using stop [of "drop (Suc i) ds"] by simp
  have frame: "\<forall>p. p \<noteq> target (ds ! i) \<longrightarrow> fs s2 p = fs s1 p"
    using step_frame [of _ "ds ! i" h s1] assms(3) by simp
  have kept: "\<exists>t. net h (requests (trace s) + j) (url (ds ! j)) = Some (Utf8 t)
      \<and> fs s2 (target (ds ! j))
          = Some (File (mode_after h (fs s) (target (ds ! j))) (substitute (ds ! j) t))"
    if d: "distinct (map target ds)" and j: "j < i" for j
  proof -
    from d have "distinct (map target (take i ds))"
      by (simp add: distinct_take take_map [symmetric])
    moreover have "j < length (take i ds)"
      using j assms(1) by simp
    ultimately have "\<exists>t. net h (requests (trace s) + j) (url (take i ds ! j)) = Some (Utf8 t)
        \<and> fs s1 (target (take i ds ! j))
            = Some (File (mode_after h (fs s) (target (take i ds ! j)))
                (substitute (take i ds ! j) t))"
      using loop_success_files [OF assms(2)] by blast
    moreover have "target (ds ! j) \<noteq> target (ds ! i)"
      using d j assms(1) by (simp add: distinct_conv_nth)
    ultimately show ?thesis
      using frame j by simp
  qed
  from all stop step_raises [OF assms(3)] step_failure [OF assms(3)] frame kept
  show ?thesis by blast
qed

text \<open>
  The listed descriptors, with the second request failing: the first file is written
  and stays, the second is never created.
\<close>

theorem failure_stops_the_loop_witness:
  "Suc 0 < length dashboard_list
   \<and> loop second_fetch_fails_host \<lparr>fs = example_fs, trace = []\<rparr> (take (Suc 0) dashboard_list)
       = (after_eth, None)
   \<and> snd (step second_fetch_fails_host after_eth (dashboard_list ! Suc 0)) = Some URLError
   \<and> snd (loop second_fetch_fails_host \<lparr>fs = example_fs, trace = []\<rparr> dashboard_list)
       = Some URLError
   \<and> fs (fst (loop second_fetch_fails_host \<lparr>fs = example_fs, trace = []\<rparr> dashboard_list))
       = fs after_eth
   \<and> fs after_eth ''/grafana-dashboards/single_geth_eth.json''
       = Some (File True
           ''title: Geth Dashboard Ethereum, uid: QC1Arp5WkInfluxDB_eth, datasource: InfluxDB_eth'')
   \<and> fs after_eth ''/grafana-dashboards/single_geth_opt.json'' = None"
proof -
  let ?h = second_fetch_fails_host
  let ?s = "\<lparr>fs = example_fs, trace = []\<rparr>"
  let ?s2 = "after_eth\<lparr>trace := trace after_eth
          @ [Urlopen ''https://grafana.com/api/dashboards/13877/revisions/1/download'']\<rparr>"
  have len: "Suc 0 < length dashboard_list"
    by (simp add: dashboard_list_nth)
  have first: "loop ?h ?s (take (Suc 0) dashboard_list) = (after_eth, None)"
    by (simp add: dashboard_list_nth second_fetch_fails_steps)
  have second: "step ?h after_eth (dashboard_list ! Suc 0) = (?s2, Some URLError)"
    by (simp add: dashboard_list_nth second_fetch_fails_steps)
  from failure_stops_the_loop [OF len first second]
  have "loop ?h ?s dashboard_list = (?s2, Some URLError)"
    by blast
  moreover have "fs after_eth ''/grafana-dashboards/single_geth_eth.json''
       = Some (File True
           ''title: Geth Dashboard Ethereum, uid: QC1Arp5WkInfluxDB_eth, datasource: InfluxDB_eth'')"
    "fs after_eth ''/grafana-dashboards/single_geth_opt.json'' = None"
    by (simp_all add: after_eth_def example_fs_def dashboard_path_def)
  ultimately show ?thesis
    using len first second by simp
qed

text \<open>
  Claim C5. In a run over descriptors with pairwise distinct file names (plain names,
  not absolute paths), the file of each descriptor holds, at the end, the substitution of
  that descriptor applied to the body of that descriptor's own request, and processing any
  other descriptor of the run leaves that file as it is. Distinct replacement values are
  not needed for this.
\<close>

theorem files_depend_on_own_descriptor_only:
  assumes "distinct (map filename ds)"
    and "\<forall>d\<in>set ds. \<not> prefix ''/'' (filename d)"
    and "loop h s ds = (s', None)"
    and "i < length ds"
  shows "(\<exists>t. net h (requests (trace s) + i) (url (ds ! i)) = Some (Utf8 t)
            \<and> fs s' (target (ds ! i))
                = Some (File (mode_after h (fs s) (target (ds ! i))) (substitute (ds ! i) t)))
       \<and> (\<forall>j<length ds. j \<noteq> i \<longrightarrow>
            (\<forall>s0. fs (fst (step h s0 (ds ! j))) (target (ds ! i)) = fs s0 (target (ds ! i))))"
proof -
  have d: "distinct (map target ds)"
    using assms(1,2) by (rule distinct_targets)
  have "target (ds ! j) \<noteq> target (ds ! i)" if "j < length ds" "j \<noteq> i" for j
    using d that assms(4) by (simp add: distinct_conv_nth)
  then have "\<forall>j<length ds. j \<noteq> i \<longrightarrow>
      (\<forall>s0. fs (fst (step h s0 (ds ! j))) (target (ds ! i)) = fs s0 (target (ds ! i)))"
    by (metis step_frame)
  with loop_success_files [OF assms(3) d assms(4)] show ?thesis
    by simp
qed

text \<open>The sample run: one body, two descriptors, two different files.\<close>

theorem files_depend_on_own_descriptor_only_witness:
  "distinct (map filename dashboard_list)
   \<and> list_all (\<lambda>d. \<not> prefix ''/'' (filename d)) dashboard_list
   \<and> loop example_host \<lparr>fs = example_fs, trace = []\<rparr> dashboard_list = (example_done, None)
   \<and> net example_host 0 (url eth_dashboard) = Some (Utf8 example_text)
   \<and> net example_host 1 (url opt_dashboard) = Some (Utf8 example_text)
   \<and> fs example_done ''/grafana-dashboards/single_geth_eth.json''
       = Some (File True
           ''title: Geth Dashboard Ethereum, uid: QC1Arp5WkInfluxDB_eth, datasource: InfluxDB_eth'')
   \<and> fs example_done ''/grafana-dashboards/single_geth_opt.json''
       = Some (File True
           ''title: Geth Dashboard Optimism, uid: QC1Arp5WkInfluxDB, datasource: InfluxDB'')"
proof -
  let ?s = "\<lparr>fs = example_fs, trace = []\<rparr>"
  have a: "distinct (map filename dashboard_list)"
    by (simp add: dashboard_list_def)
  have b: "\<forall>d\<in>set dashboard_list. \<not> prefix ''/'' (filename d)"
    by (simp add: dashboard_list_def)
  have n: "net example_host n u = Some (Utf8 t) \<longleftrightarrow> t = example_text" for n u t
    by (auto simp: example_host_def)
  from files_depend_on_own_descriptor_only [OF a b example_loop, of 0]
  have "fs example_done (target eth_dashboard)
      = Some (File True (substitute eth_dashboard example_text))"
    by (simp add: n dashboard_list_nth example_modes)
  then have 0: "fs example_done ''/grafana-dashboards/single_geth_eth.json''
       = Some (File True
           ''title: Geth Dashboard Ethereum, uid: QC1Arp5WkInfluxDB_eth, datasource: InfluxDB_eth'')"
    by (simp only: target_eth substitute_eth)
  from files_depend_on_own_descriptor_only [OF a b example_loop, of "Suc 0"]
  have "fs example_done (target opt_dashboard)
      = Some (File True (substitute opt_dashboard example_text))"
    by (simp add: n dashboard_list_nth example_modes)
  then have 1: "fs example_done ''/grafana-dashboards/single_geth_opt.json''
       = Some (File True
           ''title: Geth Dashboard Optimism, uid: QC1Arp5WkInfluxDB, datasource: InfluxDB'')"
    by (simp only: target_opt substitute_opt)
  from a b 0 1 example_loop show ?thesis
    by (simp add: list_all_iff n)
qed

text \<open>
  Claim C6. A second run on the file system the first run left, with the same host
  (the same environment, the same answer to each request), leaves every file as the
  first run left it. A destination file that exists before an iteration holds, after the
  iteration has succeeded, exactly the rewritten text of this request, whatever it held
  before and however long that was: \<^verbatim>\<open>open(..., 'w')\<close> truncates it and \<^verbatim>\<open>write\<close> starts at
  position 0, so nothing of the old content stays and nothing is appended to it. Where
  the files the process creates stay writable for it, the second run also logs the same
  events and ends the same way; where they do not, it stops at the first \<^verbatim>\<open>open\<close> and
  changes nothing.
\<close>

theorem second_run_rewrites_the_same_files:
  "fs (fst (main h (fs (fst (main h f))))) = fs (fst (main h f))
   \<and> (created_writable h \<longrightarrow>
        trace (fst (main h (fs (fst (main h f))))) = trace (fst (main h f))
      \<and> snd (main h (fs (fst (main h f)))) = snd (main h f))
   \<and> (step h s d = (s', None) \<longrightarrow>
        (\<exists>t. net h (requests (trace s)) (url d) = Some (Utf8 t)
           \<and> (\<forall>w old. fs s (target d) = Some (File w old) \<longrightarrow>
                 open_w h (fs s) (target d) = Some ((fs s)(target d \<mapsto> File w []), 0)
               \<and> fs s' (target d) = Some (File w (substitute d t)))))"
proof -
  have over: "step h s d = (s', None) \<longrightarrow>
        (\<exists>t. net h (requests (trace s)) (url d) = Some (Utf8 t)
           \<and> (\<forall>w old. fs s (target d) = Some (File w old) \<longrightarrow>
                 open_w h (fs s) (target d) = Some ((fs s)(target d \<mapsto> File w []), 0)
               \<and> fs s' (target d) = Some (File w (substitute d t))))"
  proof
    assume "step h s d = (s', None)"
    from step_success [OF this]
    obtain t where t: "net h (requests (trace s)) (url d) = Some (Utf8 t)"
      and o: "can_open_w (fs s) (target d)"
      and f: "fs s' = (fs s)(target d \<mapsto> File (mode_after h (fs s) (target d)) (substitute d t))"
      by auto
    have "open_w h (fs s) (target d) = Some ((fs s)(target d \<mapsto> File w []), 0)
        \<and> fs s' (target d) = Some (File w (substitute d t))"
      if "fs s (target d) = Some (File w old)" for w old
      using that o f by (simp add: open_w_def mode_after_file write_at_start)
    with t show "\<exists>t. net h (requests (trace s)) (url d) = Some (Utf8 t)
           \<and> (\<forall>w old. fs s (target d) = Some (File w old) \<longrightarrow>
                 open_w h (fs s) (target d) = Some ((fs s)(target d \<mapsto> File w []), 0)
               \<and> fs s' (target d) = Some (File w (substitute d t)))"
      by blast
  qed
  have again: "fs (fst (main h (fs (fst (main h f))))) = fs (fst (main h f))
      \<and> (created_writable h \<longrightarrow>
           trace (fst (main h (fs (fst (main h f))))) = trace (fst (main h f))
         \<and> snd (main h (fs (fst (main h f)))) = snd (main h f))"
  proof (cases "environ h ''GF_SECURITY_ADMIN_PASSWORD''")
    case None
    then have "fs (fst (main h f)) = f" by (simp add: main_unset)
    then show ?thesis by simp
  next
    case (Some v)
    show ?thesis
    proof (cases "f dashboard_path = Some (Dir True)")
      case False
      then have "\<not> path_exists f dashboard_path \<or> \<not> isdir f dashboard_path
          \<or> \<not> access_w f dashboard_path"
        using gate_iff [of f dashboard_path] by blast
      from main_no_directory [OF Some this] have "fs (fst (main h f)) = f" by simp
      then show ?thesis by simp
    next
      case True
      let ?a = "\<lparr>fs = f, trace = []\<rparr>"
      let ?a' = "fst (loop h ?a dashboard_list)"
      let ?b = "\<lparr>fs = fs ?a', trace = []\<rparr>"
      have g: "path_exists f dashboard_path" "isdir f dashboard_path" "access_w f dashboard_path"
        using True gate_iff [of f dashboard_path] by simp_all
      have m1: "main h f =
          (case loop h ?a dashboard_list of
             (s', Some e) \<Rightarrow> (s', Uncaught e) | (s', None) \<Rightarrow> (s', Finished))"
        by (rule main_loop [OF Some g])
      have "fs ?a' dashboard_path = Some (Dir True)"
        using loop_keeps_dir [of ?a dashboard_path True h dashboard_list] True by simp
      then have g': "path_exists (fs ?a') dashboard_path" "isdir (fs ?a') dashboard_path"
          "access_w (fs ?a') dashboard_path"
        using gate_iff [of "fs ?a'" dashboard_path] by simp_all
      have m2: "main h (fs ?a') =
          (case loop h ?b dashboard_list of
             (s', Some e) \<Rightarrow> (s', Uncaught e) | (s', None) \<Rightarrow> (s', Finished))"
        by (rule main_loop [OF Some g'])
      have re: "fs (fst (loop h ?b dashboard_list)) = fs ?b
         \<and> (created_writable h \<longrightarrow>
              snd (loop h ?b dashboard_list) = snd (loop h ?a dashboard_list)
            \<and> trace (fst (loop h ?b dashboard_list)) = trace ?a')"
        by (rule loop_rerun [OF listed_targets_distinct]) simp_all
      obtain sa ra where la: "loop h ?a dashboard_list = (sa, ra)"
        by (cases "loop h ?a dashboard_list")
      obtain sb rb where lb: "loop h ?b dashboard_list = (sb, rb)"
        by (cases "loop h ?b dashboard_list")
      from m1 la have 1: "fst (main h f) = sa"
        "snd (main h f) = (case ra of Some e \<Rightarrow> Uncaught e | None \<Rightarrow> Finished)"
        by (cases ra; simp)+
      from m2 la lb have 2: "fst (main h (fs sa)) = sb"
        "snd (main h (fs sa)) = (case rb of Some e \<Rightarrow> Uncaught e | None \<Rightarrow> Finished)"
        by (cases rb; simp)+
      from re la lb have "fs sb = fs sa"
        and "created_writable h \<longrightarrow> rb = ra \<and> trace sb = trace sa"
        by simp_all
      with 1 2 show ?thesis by simp
    qed
  qed
  with over show ?thesis by blast
qed

text \<open>
  A destination file that holds a stale text longer than the new one: the first run
  leaves the new text only, and a second run changes nothing and ends normally. And a
  host whose created files are read-only for it: the second run fails at the first
  \<^verbatim>\<open>open\<close>, and the files are as the first run left them.
\<close>

theorem second_run_rewrites_the_same_files_witness:
  "stale_fs ''/grafana-dashboards/single_geth_eth.json'' = Some (File True stale_text)
   \<and> length stale_text = 102
   \<and> length ''title: Geth Dashboard Ethereum, uid: QC1Arp5WkInfluxDB_eth, datasource: InfluxDB_eth''
       = 84
   \<and> created_writable example_host
   \<and> fs (fst (main example_host stale_fs)) ''/grafana-dashboards/single_geth_eth.json''
       = Some (File True
           ''title: Geth Dashboard Ethereum, uid: QC1Arp5WkInfluxDB_eth, datasource: InfluxDB_eth'')
   \<and> fs (fst (main example_host (fs (fst (main example_host stale_fs)))))
        ''/grafana-dashboards/single_geth_eth.json''
       = Some (File True
           ''title: Geth Dashboard Ethereum, uid: QC1Arp5WkInfluxDB_eth, datasource: InfluxDB_eth'')
   \<and> fs (fst (main example_host (fs (fst (main example_host stale_fs)))))
       = fs (fst (main example_host stale_fs))
   \<and> snd (main example_host (fs (fst (main example_host stale_fs)))) = Finished
   \<and> fs (fst (main readonly_umask_host example_fs)) ''/grafana-dashboards/single_geth_eth.json''
       = Some (File False
           ''title: Geth Dashboard Ethereum, uid: QC1Arp5WkInfluxDB_eth, datasource: InfluxDB_eth'')
   \<and> snd (main readonly_umask_host example_fs) = Finished
   \<and> snd (main readonly_umask_host (fs (fst (main readonly_umask_host example_fs))))
       = Uncaught OSError
   \<and> fs (fst (main readonly_umask_host (fs (fst (main readonly_umask_host example_fs)))))
       = fs (fst (main readonly_umask_host example_fs))"
proof -
  have st: "stale_fs ''/grafana-dashboards/single_geth_eth.json'' = Some (File True stale_text)"
    by (simp add: stale_fs_def)
  have len: "length stale_text = 102"
    "length ''title: Geth Dashboard Ethereum, uid: QC1Arp5WkInfluxDB_eth, datasource: InfluxDB_eth''
       = 84"
    by (simp_all add: stale_text_def)
  have cw: "created_writable example_host"
    by (simp add: example_host_def)
  have "main example_host stale_fs =
    (\<lparr>fs = stale_fs(''/grafana-dashboards/single_geth_eth.json'' \<mapsto> File True
             ''title: Geth Dashboard Ethereum, uid: QC1Arp5WkInfluxDB_eth, datasource: InfluxDB_eth'',
           ''/grafana-dashboards/single_geth_opt.json'' \<mapsto> File True
             ''title: Geth Dashboard Optimism, uid: QC1Arp5WkInfluxDB, datasource: InfluxDB''),
      trace = trace example_done\<rparr>, Finished)"
    using sample_run [of example_host "''secret''" stale_fs]
    by (simp add: example_host_def stale_fs_def example_fs_def dashboard_path_def
        mode_after_def)
  then have 1: "fs (fst (main example_host stale_fs)) ''/grafana-dashboards/single_geth_eth.json''
       = Some (File True
           ''title: Geth Dashboard Ethereum, uid: QC1Arp5WkInfluxDB_eth, datasource: InfluxDB_eth'')"
    and 2: "snd (main example_host stale_fs) = Finished"
    by simp_all
  from second_run_rewrites_the_same_files [of example_host stale_fs] cw
  have "fs (fst (main example_host (fs (fst (main example_host stale_fs)))))
       = fs (fst (main example_host stale_fs))"
    and "snd (main example_host (fs (fst (main example_host stale_fs))))
       = snd (main example_host stale_fs)"
    by blast+
  moreover from second_run_rewrites_the_same_files [of readonly_umask_host example_fs]
  have "fs (fst (main readonly_umask_host (fs (fst (main readonly_umask_host example_fs)))))
       = fs (fst (main readonly_umask_host example_fs))"
    by blast
  moreover have "fs (fst (main readonly_umask_host example_fs))
        ''/grafana-dashboards/single_geth_eth.json''
       = Some (File False
           ''title: Geth Dashboard Ethereum, uid: QC1Arp5WkInfluxDB_eth, datasource: InfluxDB_eth'')"
    "snd (main readonly_umask_host example_fs) = Finished"
    by (simp_all add: readonly_rerun(1))
  ultimately show ?thesis
    using st len cw 1 2 readonly_rerun(2) by simp
qed

text \<open>
  Claim C7. If the credential is present, the destination directory passes the three
  checks, and for every listed descriptor the request is answered with decodable text,
  the destination can be opened for writing and the write is not refused, then the run
  ends normally with exit status 0, having made one request and written one file per
  descriptor, in list order, each at the descriptor's file name inside the destination
  directory and holding its rewritten text; no other path of the file system changes.
\<close>

theorem full_success_exits_zero:
  assumes "environ h ''GF_SECURITY_ADMIN_PASSWORD'' = Some v"
    and "path_exists f dashboard_path" "isdir f dashboard_path" "access_w f dashboard_path"
    and "\<forall>i<length dashboard_list. \<exists>t.
           net h i (url (dashboard_list ! i)) = Some (Utf8 t)
         \<and> can_open_w f (target (dashboard_list ! i))
         \<and> write_fault h (target (dashboard_list ! i)) (substitute (dashboard_list ! i) t) = None"
  shows "snd (main h f) = Finished
       \<and> exit_status (snd (main h f)) = 0
       \<and> requests (trace (fst (main h f))) = length dashboard_list
       \<and> map fst (writes (trace (fst (main h f)))) = map target dashboard_list
       \<and> (\<forall>i<length dashboard_list. \<exists>t.
             net h i (url (dashboard_list ! i)) = Some (Utf8 t)
           \<and> fs (fst (main h f)) (target (dashboard_list ! i))
               = Some (File (mode_after h f (target (dashboard_list ! i)))
                   (substitute (dashboard_list ! i) t)))
       \<and> (\<forall>p. p \<notin> target ` set dashboard_list \<longrightarrow> fs (fst (main h f)) p = f p)"
proof -
  let ?s = "\<lparr>fs = f, trace = []\<rparr>"
  have "\<forall>i<length dashboard_list. \<exists>t.
      net h (requests (trace ?s) + i) (url (dashboard_list ! i)) = Some (Utf8 t)
      \<and> write_fault h (target (dashboard_list ! i)) (substitute (dashboard_list ! i) t) = None
      \<and> can_open_w (fs ?s) (target (dashboard_list ! i))"
    using assms(5) by (fastforce simp: requests_def)
  from loop_all_succeed [OF listed_targets_distinct this]
  obtain s' where l: "loop h ?s dashboard_list = (s', None)"
    and w: "map fst (writes (trace s')) = map target dashboard_list"
    by (cases "loop h ?s dashboard_list") auto
  have m: "main h f = (s', Finished)"
    using main_loop [OF assms(1-4)] l by simp
  have r: "requests (trace s') = length dashboard_list"
    using loop_success_requests [OF l] by (simp add: requests_def)
  have files: "\<exists>t. net h i (url (dashboard_list ! i)) = Some (Utf8 t)
      \<and> fs s' (target (dashboard_list ! i))
          = Some (File (mode_after h f (target (dashboard_list ! i)))
              (substitute (dashboard_list ! i) t))"
    if "i < length dashboard_list" for i
    using loop_success_files [OF l listed_targets_distinct that] by (simp add: requests_def)
  have frame: "fs s' p = f p" if "p \<notin> target ` set dashboard_list" for p
    using loop_frame [OF that, of h ?s] l by simp
  from m r w files frame show ?thesis by simp
qed

text \<open>The sample run.\<close>

theorem full_success_exits_zero_witness:
  "environ example_host ''GF_SECURITY_ADMIN_PASSWORD'' = Some ''secret''
   \<and> example_fs dashboard_path = Some (Dir True)
   \<and> snd (main example_host example_fs) = Finished
   \<and> exit_status (snd (main example_host example_fs)) = 0
   \<and> requests (trace (fst (main example_host example_fs))) = 2
   \<and> map fst (writes (trace (fst (main example_host example_fs))))
       = [''/grafana-dashboards/single_geth_eth.json'', ''/grafana-dashboards/single_geth_opt.json'']"
proof -
  have e: "environ example_host ''GF_SECURITY_ADMIN_PASSWORD'' = Some ''secret''"
    by (simp add: example_host_def)
  have d: "example_fs dashboard_path = Some (Dir True)"
    by (simp add: example_fs_def)
  then have g: "path_exists example_fs dashboard_path" "isdir example_fs dashboard_path"
      "access_w example_fs dashboard_path"
    using gate_iff [of example_fs dashboard_path] by simp_all
  have o: "can_open_w example_fs (target eth_dashboard)" "can_open_w example_fs (target opt_dashboard)"
    by (rule can_open_targets [of example_fs]; simp add: example_fs_def dashboard_path_def)+
  have io: "\<forall>i<length dashboard_list. \<exists>t.
           net example_host i (url (dashboard_list ! i)) = Some (Utf8 t)
         \<and> can_open_w example_fs (target (dashboard_list ! i))
         \<and> write_fault example_host (target (dashboard_list ! i))
             (substitute (dashboard_list ! i) t) = None"
  proof (intro allI impI)
    fix i assume "i < length dashboard_list"
    then have "i = 0 \<or> i = Suc 0" by (auto simp: dashboard_list_nth)
    then have "can_open_w example_fs (target (dashboard_list ! i))"
      using o by (auto simp: dashboard_list_nth)
    then show "\<exists>t. net example_host i (url (dashboard_list ! i)) = Some (Utf8 t)
         \<and> can_open_w example_fs (target (dashboard_list ! i))
         \<and> write_fault example_host (target (dashboard_list ! i))
             (substitute (dashboard_list ! i) t) = None"
      by (simp add: example_host_def)
  qed
  from full_success_exits_zero [OF e g io] e d show ?thesis
    by (simp add: dashboard_list_nth target_eth target_opt)
qed

text \<open>
  Claim C8. Two runs that differ only in the value of the credential variable, set in
  both, are the same run: the same events (requests, files opened and written,
  messages), the same file system, the same way of ending.
\<close>

theorem credential_value_is_not_observable:
  assumes "environ h ''GF_SECURITY_ADMIN_PASSWORD'' = Some v"
  shows "main (h\<lparr>environ := (environ h)(''GF_SECURITY_ADMIN_PASSWORD'' \<mapsto> v')\<rparr>) f = main h f"
proof -
  have "loop (h\<lparr>environ := e\<rparr>) s ds = loop h s ds" for e s ds
  proof (induction ds arbitrary: s)
    case Nil
    show ?case by simp
  next
    case (Cons d ds)
    have "open_w (h\<lparr>environ := e\<rparr>) f p = open_w h f p" for f p
      by (simp add: open_w_def mode_after_def split: option.splits node.splits)
    then have "step (h\<lparr>environ := e\<rparr>) s d = step h s d"
      by (simp add: step_def Let_def split: option.splits sum.splits)
    with Cons show ?case by simp
  qed
  with assms show ?thesis
    by (simp add: main_def Let_def)
qed

text \<open>The sample run under two different passwords.\<close>

theorem credential_value_is_not_observable_witness:
  "environ example_host ''GF_SECURITY_ADMIN_PASSWORD'' = Some ''secret''
   \<and> environ other_password_host ''GF_SECURITY_ADMIN_PASSWORD'' = Some ''hunter2''
   \<and> main other_password_host example_fs = main example_host example_fs
   \<and> main example_host example_fs = (example_done, Finished)"
proof -
  have e: "environ example_host ''GF_SECURITY_ADMIN_PASSWORD'' = Some ''secret''"
    by (simp add: example_host_def)
  have o: "other_password_host
      = example_host\<lparr>environ := (environ example_host)(''GF_SECURITY_ADMIN_PASSWORD'' \<mapsto> ''hunter2'')\<rparr>"
    by (simp add: other_password_host_def example_host_def)
  have "environ other_password_host ''GF_SECURITY_ADMIN_PASSWORD'' = Some ''hunter2''"
    by (simp add: other_password_host_def)
  with credential_value_is_not_observable [OF e, of "''hunter2''" example_fs] e o example_run
  show ?thesis by simp
qed

text \<open>
  Claim C9. When either gate fails, the run does not end through \<^verbatim>\<open>sys.exit(1)\<close>: the
  module never imports \<^verbatim>\<open>sys\<close>, so after the diagnostic is printed the name lookup raises
  NameError, which nothing catches; the exit status 1 is the interpreter's status for
  an uncaught exception, not the argument of \<^verbatim>\<open>exit\<close>.
\<close>

theorem failed_gate_ends_in_name_error:
  assumes "environ h ''GF_SECURITY_ADMIN_PASSWORD'' = None
     \<or> \<not> path_exists f dashboard_path \<or> \<not> isdir f dashboard_path
     \<or> \<not> access_w f dashboard_path"
  shows "''sys'' \<notin> set bound_names
       \<and> snd (main h f) = Uncaught (NameError ''sys'')
       \<and> (\<forall>code. snd (main h f) \<noteq> SystemExit code)
       \<and> exit_status (snd (main h f)) = 1
       \<and> (\<exists>msg. trace (fst (main h f)) = [Print msg])"
proof -
  have b: "''sys'' \<notin> set bound_names"
    by (simp add: bound_names_def imported_def)
  show ?thesis
  proof (cases "environ h ''GF_SECURITY_ADMIN_PASSWORD''")
    case None
    from main_unset [OF this, of f] b show ?thesis by simp
  next
    case (Some v)
    with assms have "\<not> path_exists f dashboard_path \<or> \<not> isdir f dashboard_path
        \<or> \<not> access_w f dashboard_path"
      by simp
    from main_no_directory [OF Some this] b show ?thesis by simp
  qed
qed

text \<open>Both gates: the variable unset, and a read-only destination directory.\<close>

theorem failed_gate_ends_in_name_error_witness:
  "environ unset_host ''GF_SECURITY_ADMIN_PASSWORD'' = None
   \<and> snd (main unset_host example_fs) = Uncaught (NameError ''sys'')
   \<and> exit_status (snd (main unset_host example_fs)) = 1
   \<and> isdir readonly_fs dashboard_path
   \<and> \<not> access_w readonly_fs dashboard_path
   \<and> snd (main example_host readonly_fs) = Uncaught (NameError ''sys'')
   \<and> exit_status (snd (main example_host readonly_fs)) = 1"
proof -
  have u: "environ unset_host ''GF_SECURITY_ADMIN_PASSWORD'' = None"
    by (simp add: unset_host_def)
  have r: "isdir readonly_fs dashboard_path" "\<not> access_w readonly_fs dashboard_path"
    by (simp_all add: readonly_fs_def isdir_def access_w_def)
  from failed_gate_ends_in_name_error [of unset_host example_fs]
    failed_gate_ends_in_name_error [of example_host readonly_fs] u r
  show ?thesis by simp
qed

text \<open>
  Claim C10. When the directory gate fails, the message printed is the template itself,
  \<^verbatim>\<open>%s\<close> included: \<^verbatim>\<open>str.format\<close> finds no brace field in it, whatever path it is given, and
  the destination path does not occur in the message.
\<close>

theorem directory_message_is_not_interpolated:
  assumes "environ h ''GF_SECURITY_ADMIN_PASSWORD'' = Some v"
    and "\<not> path_exists f dashboard_path \<or> \<not> isdir f dashboard_path
       \<or> \<not> access_w f dashboard_path"
  shows "trace (fst (main h f)) = [Print ''Dashboard path %s is not writable, exiting'']
       \<and> (\<forall>p. str_format ''Dashboard path %s is not writable, exiting'' [p]
              = Inr ''Dashboard path %s is not writable, exiting'')
       \<and> \<not> sublist dashboard_path ''Dashboard path %s is not writable, exiting''"
proof -
  have "\<not> sublist dashboard_path ''Dashboard path %s is not writable, exiting''"
  proof
    assume "sublist dashboard_path ''Dashboard path %s is not writable, exiting''"
    from set_mono_sublist [OF this] show False
      by (simp add: dashboard_path_def)
  qed
  with main_no_directory [OF assms] directory_message show ?thesis by simp
qed

text \<open>The sample host with no destination directory.\<close>

theorem directory_message_is_not_interpolated_witness:
  "environ example_host ''GF_SECURITY_ADMIN_PASSWORD'' = Some ''secret''
   \<and> \<not> path_exists missing_fs dashboard_path
   \<and> trace (fst (main example_host missing_fs))
       = [Print ''Dashboard path %s is not writable, exiting'']
   \<and> str_format ''Dashboard path %s is not writable, exiting'' [''/grafana-dashboards'']
       = Inr ''Dashboard path %s is not writable, exiting''"
proof -
  have e: "environ example_host ''GF_SECURITY_ADMIN_PASSWORD'' = Some ''secret''"
    by (simp add: example_host_def)
  have m: "\<not> path_exists missing_fs dashboard_path"
    by (simp add: missing_fs_def path_exists_def)
  from directory_message_is_not_interpolated [OF e, of missing_fs] e m
  show ?thesis by simp
qed

end
